theory Spec2Isabelle
  imports Main "HOL-Library.Sublist"
begin

section \<open>Strings\<close>

text \<open>
  A JavaScript string is a sequence of UTF-16 code units; a code unit is modelled as a
  natural number. \<open>str\<close> turns a literal of the theory into such a string.
\<close>

type_synonym jsstring = "nat list"

definition str :: "string \<Rightarrow> jsstring" where
  "str s = map of_char s"

text \<open>
  The code units that the regular expression class \<open>\s\<close> matches and that
  \<open>String.prototype.trim\<close> strips: ECMAScript's WhiteSpace and LineTerminator
  (TAB, LF, VT, FF, CR, SP, NBSP, U+1680, U+2000..U+200A, U+2028, U+2029, U+202F,
  U+205F, U+3000, U+FEFF).
\<close>

definition is_ws :: "nat \<Rightarrow> bool" where
  "is_ws c = (c \<in> {9, 10, 11, 12, 13, 32, 160, 5760, 8232, 8233, 8239, 8287, 12288, 65279}
              \<or> (8192 \<le> c \<and> c \<le> 8202))"

definition trim :: "jsstring \<Rightarrow> jsstring" where
  "trim s = rev (dropWhile is_ws (rev (dropWhile is_ws s)))"

text \<open>
  \<open>s.split(',')\<close> for a separator of one code unit, and the element \<open>[1]\<close> of the
  result (\<open>undefined\<close>, here \<open>None\<close>, when the string has no separator).
\<close>

fun split_on :: "nat \<Rightarrow> jsstring \<Rightarrow> jsstring list" where
  "split_on sep [] = [[]]"
| "split_on sep (c # cs) =
     (if c = sep then [] # split_on sep cs
      else (case split_on sep cs of
              [] \<Rightarrow> [[c]]
            | p # ps \<Rightarrow> (c # p) # ps))"

definition split_comma_1 :: "jsstring \<Rightarrow> jsstring option" where
  "split_comma_1 s = (case split_on 44 s of _ # d # _ \<Rightarrow> Some d | _ \<Rightarrow> None)"

section \<open>Home.tsx: the Code Extractor\<close>

text \<open>
  Lines 171 to 173 of Home.tsx:
  \<^verbatim>\<open>const text = res.text || '';\<close>,
  a match of the regular expression made of three grave accents, the optional group
  \<^verbatim>\<open>(?:javascript|js)?\<close>, \<^verbatim>\<open>\s*\<close>, the lazy group
  \<^verbatim>\<open>([\s\S]*?)\<close> and three grave accents again, and
  \<^verbatim>\<open>match ? match[1].trim() : text\<close>.
  The grave accent is the code unit 96. The matcher below follows the backtracking
  order of the expression: the alternatives of the tag are tried in the order
  javascript, js, nothing; \<open>\s*\<close> takes the longest run of white space first and
  gives code units back one at a time; the lazy group takes the shortest text that a
  fence follows; and \<open>exec\<close> tries the start positions from left to right (the
  expression is a fresh literal on every call, so \<open>lastIndex\<close> is 0).
\<close>

definition fence :: jsstring where
  "fence = [96, 96, 96]"

fun lazy_body :: "jsstring \<Rightarrow> jsstring option" where
  "lazy_body [] = None"
| "lazy_body (c # cs) =
     (if prefix fence (c # cs) then Some [] else map_option ((#) c) (lazy_body cs))"

fun spaces_then_body :: "jsstring \<Rightarrow> jsstring option" where
  "spaces_then_body [] = lazy_body []"
| "spaces_then_body (c # cs) =
     (if is_ws c
      then (case spaces_then_body cs of Some m \<Rightarrow> Some m | None \<Rightarrow> lazy_body (c # cs))
      else lazy_body (c # cs))"

definition or_else :: "'a option \<Rightarrow> 'a option \<Rightarrow> 'a option" where
  "or_else a b = (case a of Some x \<Rightarrow> Some x | None \<Rightarrow> b)"

definition after_open :: "jsstring \<Rightarrow> jsstring option" where
  "after_open s =
     or_else (if prefix (str ''javascript'') s then spaces_then_body (drop 10 s) else None)
       (or_else (if prefix (str ''js'') s then spaces_then_body (drop 2 s) else None)
          (spaces_then_body s))"

text \<open>\<open>regex_exec text\<close> is \<open>match[1]\<close>, or \<open>None\<close> when \<open>exec\<close> returns null.\<close>

fun regex_exec :: "jsstring \<Rightarrow> jsstring option" where
  "regex_exec [] = None"
| "regex_exec (c # cs) =
     (case (if prefix fence (c # cs) then after_open (drop 3 (c # cs)) else None) of
        Some m \<Rightarrow> Some m
      | None \<Rightarrow> regex_exec cs)"

definition extractCode :: "jsstring \<Rightarrow> jsstring" where
  "extractCode text = (case regex_exec text of Some m \<Rightarrow> trim m | None \<Rightarrow> text)"

text \<open>
  The shape in which the specification writes a fenced block: the fence, a language
  tag, a line feed, the interior, a line feed, the fence. The repository has no
  function that builds it; it is the input of the properties about fenced text.
\<close>

definition fenced :: "jsstring \<Rightarrow> jsstring \<Rightarrow> jsstring" where
  "fenced tag x = fence @ tag @ [10] @ x @ [10] @ fence"

section \<open>Home.tsx: state, requests and effects\<close>

text \<open>
  The reason of a rejected promise, or a thrown value; \<open>TypeError\<close> is the error of
  reading a property of \<open>undefined\<close>.
\<close>

datatype js_error = Thrown jsstring | TypeError

text \<open>
  How an invocation of an asynchronous function ends: its promise stays pending, it
  returns, or it is rejected with a value thrown outside every \<open>try\<close> block.
\<close>

datatype completion = Pending | Returned | Rejected js_error

text \<open>
  An element of \<open>outputs\<close>: \<^verbatim>\<open>{ id, code, fullResponse }\<close>. The field \<open>id\<close> is
  named \<open>out_id\<close> here.
\<close>

record Output =
  out_id :: int
  code :: jsstring
  fullResponse :: jsstring

datatype PerformanceMode = Lite | Pro

datatype MediaType = MImage | MVideo | MEdit

datatype role = User | Assistant

record ChatMessage =
  role :: role
  content :: jsstring
  grounding :: "jsstring list option"

datatype media_kind = ImageMedia | VideoMedia

record media =
  media_type :: media_kind
  url :: jsstring

text \<open>
  The state of the component \<open>Home\<close> that the three operations read or write
  (lines 54 to 88).
\<close>

record home_state =
  performanceMode :: PerformanceMode
  imageBase64 :: jsstring
  outputs :: "Output list"
  loading :: bool
  concurrentRequests :: nat
  prompt :: jsstring
  errorInfo :: "js_error option"
  userInput :: jsstring
  thinkingMode :: bool
  useSearch :: bool
  useMaps :: bool
  chatMessages :: "ChatMessage list"
  mediaType :: MediaType
  aspectRatio :: jsstring
  imageSize :: jsstring
  generatedMedia :: "media list"

text \<open>The values that \<open>useState\<close> gives the state on the first render.\<close>

definition Home_initial :: home_state where
  "Home_initial =
     \<lparr>performanceMode = Pro, imageBase64 = [], outputs = [], loading = False,
      concurrentRequests = 3, prompt = [], errorInfo = None, userInput = [],
      thinkingMode = True, useSearch = False, useMaps = False, chatMessages = [],
      mediaType = MImage, aspectRatio = str ''1:1'', imageSize = str ''1K'',
      generatedMedia = []\<rparr>"

text \<open>
  A request to the generation service. The sampling numbers (temperature, topK, topP)
  are floating point constants of the state that no operation computes with; they are
  left out of the request. \<open>sizeConfig\<close> is the pair of \<open>aspectRatio\<close> and
  \<open>imageSize\<close> of an image request, or of \<open>aspectRatio\<close> and \<open>resolution\<close> of a
  video request.
\<close>

datatype part = TextPart jsstring | InlineData "jsstring option"

datatype tool = GoogleSearch | GoogleMaps

record request =
  model :: jsstring
  contents :: "part list"
  thinkingBudget :: "nat option"
  tools :: "tool list option"
  sizeConfig :: "(jsstring \<times> jsstring) option"

text \<open>
  A response of the generation service, as far as the operations read it:
  \<open>res.text\<close>, the grounding chunks of the first candidate (each with an optional
  \<open>web\<close> and \<open>maps\<close> source), and \<open>res.candidates?.[0]?.content\<close>:
  \<open>res_content\<close> is \<open>None\<close> when that chain is \<open>undefined\<close>, \<open>Some None\<close> when
  the content has no \<open>parts\<close>, and else the parts, each without \<open>inlineData\<close> or
  with it and its \<open>data\<close> (\<open>None\<close> for an undefined \<open>data\<close>).
\<close>

datatype res_part = NoInlineData | WithInlineData "jsstring option"

record chunk =
  web :: "jsstring option"
  maps :: "jsstring option"

record response =
  res_text :: "jsstring option"
  res_content :: "res_part list option option"
  res_groundingChunks :: "chunk list option"

text \<open>
  A long-running operation: the handle that the service returned last, its \<open>done\<close>
  flag and \<open>response.generatedVideos[0].video.uri\<close>.
\<close>

record operation =
  op_name :: jsstring
  op_done :: bool
  op_uri :: "jsstring option"

text \<open>
  What an invocation does, in the order in which it does it: the calls of the state
  setters and the calls that leave the host.
\<close>

datatype effect =
    SetLoading bool
  | SetOutputs "Output list"
  | SetErrorInfo js_error
  | SetUserInput jsstring
  | AppendChatMessage ChatMessage
  | PrependGeneratedMedia media
  | GenerateContent request
  | GenerateVideos request
  | SetTimeout nat
  | GetVideosOperation operation
  | Fetch jsstring

fun apply_effect :: "effect \<Rightarrow> home_state \<Rightarrow> home_state" where
  "apply_effect (SetLoading b) s = s\<lparr>loading := b\<rparr>"
| "apply_effect (SetOutputs os) s = s\<lparr>outputs := os\<rparr>"
| "apply_effect (SetErrorInfo e) s = s\<lparr>errorInfo := Some e\<rparr>"
| "apply_effect (SetUserInput u) s = s\<lparr>userInput := u\<rparr>"
| "apply_effect (AppendChatMessage m) s = s\<lparr>chatMessages := chatMessages s @ [m]\<rparr>"
| "apply_effect (PrependGeneratedMedia m) s = s\<lparr>generatedMedia := m # generatedMedia s\<rparr>"
| "apply_effect (GenerateContent _) s = s"
| "apply_effect (GenerateVideos _) s = s"
| "apply_effect (SetTimeout _) s = s"
| "apply_effect (GetVideosOperation _) s = s"
| "apply_effect (Fetch _) s = s"

definition run_effects :: "effect list \<Rightarrow> home_state \<Rightarrow> home_state" where
  "run_effects es s = fold apply_effect es s"

section \<open>Home.tsx: generateCode\<close>

text \<open>
  \<open>Promise.all\<close> over \<open>n\<close> promises. \<open>settle i\<close> is how promise \<open>i\<close> settles
  (\<open>Inl\<close> a rejection, \<open>Inr\<close> its value) and \<open>order\<close> lists the promises in the
  order in which they settle; a promise that \<open>order\<close> does not name never settles.
  The values are stored by position. The result is \<open>None\<close> while the joint promise
  stays pending, \<open>Inl\<close> the first rejection in settling order, or \<open>Inr\<close> all the
  values by position.
\<close>

fun collect :: "'a option list \<Rightarrow> 'a list option" where
  "collect [] = Some []"
| "collect (None # _) = None"
| "collect (Some v # xs) = map_option ((#) v) (collect xs)"

fun promise_all_run ::
  "(nat \<Rightarrow> js_error + 'a) \<Rightarrow> 'a option list \<Rightarrow> nat list \<Rightarrow> (js_error + 'a list) option" where
  "promise_all_run settle slots [] = map_option Inr (collect slots)"
| "promise_all_run settle slots (i # order) =
     (case collect slots of
        Some vs \<Rightarrow> Some (Inr vs)
      | None \<Rightarrow>
          if i < length slots
          then (case settle i of
                  Inl e \<Rightarrow> Some (Inl e)
                | Inr v \<Rightarrow> promise_all_run settle (slots[i := Some v]) order)
          else promise_all_run settle slots order)"

definition promise_all ::
  "nat \<Rightarrow> (nat \<Rightarrow> js_error + 'a) \<Rightarrow> nat list \<Rightarrow> (js_error + 'a list) option" where
  "promise_all n settle order = promise_all_run settle (replicate n None) order"

definition MODEL_PRO :: jsstring where
  "MODEL_PRO = str ''gemini-3-pro-preview''"

definition MODEL_LITE :: jsstring where
  "MODEL_LITE = str ''gemini-2.5-flash-lite-latest''"

definition MODEL_IMAGE_PRO :: jsstring where
  "MODEL_IMAGE_PRO = str ''gemini-3-pro-image-preview''"

definition MODEL_IMAGE_EDIT :: jsstring where
  "MODEL_IMAGE_EDIT = str ''gemini-2.5-flash-image''"

definition MODEL_VEO :: jsstring where
  "MODEL_VEO = str ''veo-3.1-fast-generate-preview''"

definition getModel :: "home_state \<Rightarrow> jsstring" where
  "getModel s = (if performanceMode s = Pro then MODEL_PRO else MODEL_LITE)"

definition code_request :: "home_state \<Rightarrow> request" where
  "code_request s =
     \<lparr>model = getModel s,
      contents =
        [TextPart (prompt s @ str ''\<newline>\<newline>Instructions: '' @ userInput s),
         InlineData (split_comma_1 (imageBase64 s))],
      thinkingBudget =
        (if performanceMode s = Pro \<and> thinkingMode s then Some 32768 else None),
      tools = None,
      sizeConfig = None\<rparr>"

text \<open>\<^verbatim>\<open>res.text || ''\<close>\<close>

definition text_of :: "response \<Rightarrow> jsstring" where
  "text_of res = (case res_text res of Some t \<Rightarrow> t | None \<Rightarrow> [])"

text \<open>What one of the concurrent calls returns: \<^verbatim>\<open>{ code, fullResponse }\<close>.\<close>

definition code_result :: "response \<Rightarrow> jsstring \<times> jsstring" where
  "code_result res = (let text = text_of res in (extractCode text, text))"

text \<open>
  \<^verbatim>\<open>results.map((r, i) => ({ id: Date.now() + i, ...r }))\<close>: \<open>now i\<close> is what
  \<open>Date.now()\<close> returns in the call for element \<open>i\<close>.
\<close>

definition with_ids :: "(nat \<Rightarrow> int) \<Rightarrow> (jsstring \<times> jsstring) list \<Rightarrow> Output list" where
  "with_ids now results =
     map (\<lambda>(i, r). \<lparr>out_id = now i + int i, code = fst r, fullResponse = snd r\<rparr>)
       (zip [0..<length results] results)"

text \<open>
  \<open>generateCode\<close> (lines 148 to 183). \<open>respond i\<close> is the answer of the service to
  call \<open>i\<close>, \<open>order\<close> the order in which the calls complete. \<open>client\<close> is the
  outcome of \<^verbatim>\<open>new GoogleGenAI({ apiKey: process.env.API_KEY })\<close> (line 151), which
  stands after \<open>setLoading(true)\<close> and before the \<open>try\<close> block: \<open>Some e\<close> when the
  constructor throws \<open>e\<close>, \<open>None\<close> when it returns. The result is the list of
  effects and how the invocation ends (it stays pending while \<open>Promise.all\<close> does).
  All the requests leave before the first answer is awaited.
\<close>

definition generateCode ::
  "js_error option \<Rightarrow> (nat \<Rightarrow> js_error + response) \<Rightarrow> nat list \<Rightarrow> (nat \<Rightarrow> int)
     \<Rightarrow> home_state \<Rightarrow> effect list \<times> completion" where
  "generateCode client respond order now s =
     (if imageBase64 s = [] then ([], Returned)
      else case client of
        Some e \<Rightarrow> ([SetLoading True], Rejected e)
      | None \<Rightarrow>
        let n = concurrentRequests s;
            reqs = replicate n (GenerateContent (code_request s));
            settle = (\<lambda>i. map_sum id code_result (respond i))
        in case promise_all n settle order of
             None \<Rightarrow> (SetLoading True # reqs, Pending)
           | Some (Inl e) \<Rightarrow>
               (SetLoading True # reqs @ [SetErrorInfo e, SetLoading False], Returned)
           | Some (Inr results) \<Rightarrow>
               (SetLoading True # reqs @ [SetOutputs (with_ids now results), SetLoading False],
                Returned))"

section \<open>Home.tsx: handleChat\<close>

definition chat_tools :: "home_state \<Rightarrow> tool list" where
  "chat_tools s =
     (if useSearch s then [GoogleSearch] else []) @ (if useMaps s then [GoogleMaps] else [])"

definition chat_request :: "home_state \<Rightarrow> jsstring \<Rightarrow> request" where
  "chat_request s msg =
     \<lparr>model = (if useMaps s then str ''gemini-2.5-flash'' else getModel s),
      contents = [TextPart msg],
      thinkingBudget =
        (if performanceMode s = Pro \<and> thinkingMode s \<and> \<not> useMaps s then Some 32768
         else None),
      tools = (if chat_tools s \<noteq> [] then Some (chat_tools s) else None),
      sizeConfig = None\<rparr>"

text \<open>
  \<^verbatim>\<open>groundingChunks?.map(c => c.web || c.maps).filter(Boolean)\<close>
\<close>

definition grounding_of :: "response \<Rightarrow> jsstring list option" where
  "grounding_of res =
     map_option
       (List.map_filter (\<lambda>c. case web c of Some w \<Rightarrow> Some w | None \<Rightarrow> maps c))
       (res_groundingChunks res)"

text \<open>
  \<open>handleChat\<close> (lines 185 to 219). \<open>client\<close> is the outcome of the constructor of
  line 192, as in \<open>generateCode\<close>; \<open>reply\<close> is how the call of the service settles.
\<close>

definition handleChat ::
  "js_error option \<Rightarrow> (js_error + response) \<Rightarrow> home_state \<Rightarrow> effect list \<times> completion"
  where
  "handleChat client reply s =
     (if trim (userInput s) = [] then ([], Returned)
      else
        let msg = trim (userInput s);
            before =
              [AppendChatMessage \<lparr>role = User, content = msg, grounding = None\<rparr>,
               SetUserInput [],
               SetLoading True]
        in case client of
             Some e \<Rightarrow> (before, Rejected e)
           | None \<Rightarrow>
               (before
                @ [GenerateContent (chat_request s msg)]
                @ (case reply of
                     Inl e \<Rightarrow> [SetErrorInfo e]
                   | Inr res \<Rightarrow>
                       [AppendChatMessage
                          \<lparr>role = Assistant, content = text_of res,
                           grounding = grounding_of res\<rparr>])
                @ [SetLoading False],
                Returned))"

section \<open>Home.tsx: generateMedia and the poll loop\<close>

text \<open>
  What the environment answers to one invocation of \<open>generateMedia\<close>: \<open>reply\<close> to
  \<open>generateContent\<close>, \<open>submitted\<close> to \<open>generateVideos\<close>, \<open>polls\<close> to the successive
  calls of \<open>getVideosOperation\<close> (a call past the end of the list is never answered),
  \<open>fetched\<close> to \<open>fetch\<close> and \<open>blob\<close> (the object URL of the blob), and the value of
  \<open>process.env.API_KEY\<close>.
\<close>

record media_env =
  reply :: "js_error + response"
  submitted :: "js_error + operation"
  polls :: "(js_error + operation) list"
  fetched :: "js_error + jsstring"
  API_KEY :: jsstring

definition image_request :: "home_state \<Rightarrow> request" where
  "image_request s =
     \<lparr>model = MODEL_IMAGE_PRO,
      contents =
        TextPart (userInput s)
        # (if imageBase64 s \<noteq> [] then [InlineData (split_comma_1 (imageBase64 s))] else []),
      thinkingBudget = None,
      tools = None,
      sizeConfig = Some (aspectRatio s, imageSize s)\<rparr>"

definition edit_request :: "home_state \<Rightarrow> request" where
  "edit_request s =
     \<lparr>model = MODEL_IMAGE_EDIT,
      contents = [InlineData (split_comma_1 (imageBase64 s)), TextPart (userInput s)],
      thinkingBudget = None,
      tools = None,
      sizeConfig = None\<rparr>"

definition video_request :: "home_state \<Rightarrow> request" where
  "video_request s =
     \<lparr>model = MODEL_VEO,
      contents = [TextPart (userInput s)],
      thinkingBudget = None,
      tools = None,
      sizeConfig = Some (aspectRatio s, str ''720p'')\<rparr>"

text \<open>
  Lines 236 to 237 and 248 to 249:
  \<^verbatim>\<open>const part = res.candidates?.[0]?.content?.parts.find(p => p.inlineData);
  if (part?.inlineData) setGeneratedMedia(prev => [{ type: 'image',
  url: `data:image/png;base64,${part.inlineData?.data}` }, ...prev]);\<close>
  A content without \<open>parts\<close> makes \<open>find\<close> throw a TypeError.
\<close>

definition image_effects :: "response \<Rightarrow> js_error + effect list" where
  "image_effects res =
     (case res_content res of
        None \<Rightarrow> Inr []
      | Some None \<Rightarrow> Inl TypeError
      | Some (Some ps) \<Rightarrow>
          (case find (\<lambda>p. p \<noteq> NoInlineData) ps of
             Some (WithInlineData d) \<Rightarrow>
               Inr [PrependGeneratedMedia
                      \<lparr>media_type = ImageMedia,
                       url = str ''data:image/png;base64,''
                             @ (case d of Some x \<Rightarrow> x | None \<Rightarrow> str ''undefined'')\<rparr>]
           | _ \<Rightarrow> Inr []))"

text \<open>What the \<open>try\<close> and \<open>catch\<close> blocks do with the answer to an image request.\<close>

definition image_outcome :: "(js_error + response) \<Rightarrow> effect list" where
  "image_outcome answer =
     (case answer of
        Inl e \<Rightarrow> [SetErrorInfo e]
      | Inr res \<Rightarrow> (case image_effects res of Inl e \<Rightarrow> [SetErrorInfo e] | Inr es \<Rightarrow> es))"

text \<open>
  The loop of lines 256 to 260:
  \<^verbatim>\<open>let res = op; while (!res.done) { await new Promise(r => setTimeout(r, 5000));
  res = await ai.operations.getVideosOperation({ operation: res }); }\<close>
  The second component is \<open>None\<close> when a poll is never answered, \<open>Inl\<close> when a poll
  is rejected, \<open>Inr\<close> the operation that left the loop.
\<close>

fun poll_loop ::
  "operation \<Rightarrow> (js_error + operation) list \<Rightarrow> effect list \<times> (js_error + operation) option"
  where
  "poll_loop res [] =
     (if op_done res then ([], Some (Inr res))
      else ([SetTimeout 5000, GetVideosOperation res], None))"
| "poll_loop res (r # rs) =
     (if op_done res then ([], Some (Inr res))
      else (case r of
              Inl e \<Rightarrow> ([SetTimeout 5000, GetVideosOperation res], Some (Inl e))
            | Inr res' \<Rightarrow>
                (case poll_loop res' rs of
                   (evs, out) \<Rightarrow> (SetTimeout 5000 # GetVideosOperation res # evs, out))))"

text \<open>\<^verbatim>\<open>`${uri}&key=${process.env.API_KEY}`\<close>\<close>

definition video_url :: "media_env \<Rightarrow> operation \<Rightarrow> jsstring" where
  "video_url env res =
     (case op_uri res of Some u \<Rightarrow> u | None \<Rightarrow> str ''undefined'') @ str ''&key='' @ API_KEY env"

text \<open>
  \<open>generateMedia\<close> (lines 221 to 271). \<open>client\<close> is the outcome of the constructor of
  line 223, as in \<open>generateCode\<close>.
\<close>

definition generateMedia ::
  "js_error option \<Rightarrow> media_env \<Rightarrow> home_state \<Rightarrow> effect list \<times> completion" where
  "generateMedia client env s =
     (case client of
        Some e \<Rightarrow> ([SetLoading True], Rejected e)
      | None \<Rightarrow>
     (case mediaType s of
        MImage \<Rightarrow>
          ([SetLoading True, GenerateContent (image_request s)]
           @ image_outcome (reply env)
           @ [SetLoading False],
           Returned)
      | MEdit \<Rightarrow>
          ([SetLoading True, GenerateContent (edit_request s)]
           @ image_outcome (reply env)
           @ [SetLoading False],
           Returned)
      | MVideo \<Rightarrow>
          (case submitted env of
             Inl e \<Rightarrow>
               ([SetLoading True, GenerateVideos (video_request s), SetErrorInfo e,
                 SetLoading False],
                Returned)
           | Inr op0 \<Rightarrow>
               (case poll_loop op0 (polls env) of
                  (evs, None) \<Rightarrow>
                    (SetLoading True # GenerateVideos (video_request s) # evs, Pending)
                | (evs, Some (Inl e)) \<Rightarrow>
                    (SetLoading True # GenerateVideos (video_request s) # evs
                     @ [SetErrorInfo e, SetLoading False],
                     Returned)
                | (evs, Some (Inr res)) \<Rightarrow>
                    (SetLoading True # GenerateVideos (video_request s) # evs
                     @ [Fetch (video_url env res)]
                     @ (case fetched env of
                          Inl e \<Rightarrow> [SetErrorInfo e]
                        | Inr u \<Rightarrow>
                            [PrependGeneratedMedia \<lparr>media_type = VideoMedia, url = u\<rparr>])
                     @ [SetLoading False],
                     Returned)))))"

section \<open>CodePreview: the status channel and the editor\<close>

text \<open>
  The file CodePreview.tsx holds two versions of the component, the TypeScript one
  (lines 1 to 182) and the JavaScript one (lines 184 to 796). Both are modelled; the
  names of the second end in \<open>_jsx\<close>, those of the first in \<open>_tsx\<close>.
\<close>

datatype status = Idle | Loading | Success | Error

text \<open>
  The data of a message event:
  \<^verbatim>\<open>{ type: 'SKETCH_STATUS', status, message, id }\<close>.
\<close>

record message =
  msg_type :: jsstring
  msg_status :: status
  msg_message :: jsstring
  msg_id :: int

text \<open>
  A mounted component: its prop \<open>output\<close> and its state \<open>sketchStatus\<close> and
  \<open>sketchError\<close>. \<open>Home\<close> renders one component for each element of \<open>outputs\<close>
  (line 433), so the rendered host is a list of them.
\<close>

record CodePreview =
  output_prop :: Output
  sketchStatus :: status
  sketchError :: jsstring

text \<open>\<open>handleMessage\<close>, lines 62 to 67.\<close>

definition handleMessage_tsx :: "message \<Rightarrow> CodePreview \<Rightarrow> CodePreview" where
  "handleMessage_tsx e p =
     (if msg_type e = str ''SKETCH_STATUS'' \<and> msg_id e = out_id (output_prop p)
      then (let p' = p\<lparr>sketchStatus := msg_status e\<rparr>
            in if msg_status e = Error then p'\<lparr>sketchError := msg_message e\<rparr> else p')
      else p)"

text \<open>\<open>handleMessage\<close>, lines 287 to 298.\<close>

definition handleMessage_jsx :: "message \<Rightarrow> CodePreview \<Rightarrow> CodePreview" where
  "handleMessage_jsx e p =
     (if msg_type e = str ''SKETCH_STATUS''
      then (if msg_id e = out_id (output_prop p)
            then (let p' = p\<lparr>sketchStatus := msg_status e\<rparr>
                  in if msg_status e = Error
                     then p'\<lparr>sketchError :=
                            (if msg_message e \<noteq> [] then msg_message e
                             else str ''Unknown execution error'')\<rparr>
                     else p')
            else p)
      else p)"

text \<open>
  Every mounted component listens on the same window, so a message event reaches the
  handler of each of them.
\<close>

definition dispatch_tsx :: "message \<Rightarrow> CodePreview list \<Rightarrow> CodePreview list" where
  "dispatch_tsx e host = map (handleMessage_tsx e) host"

definition dispatch_jsx :: "message \<Rightarrow> CodePreview list \<Rightarrow> CodePreview list" where
  "dispatch_jsx e host = map (handleMessage_jsx e) host"

text \<open>
  \<open>onCodeChange\<close>, Home.tsx line 433:
  \<^verbatim>\<open>setOutputs(o => o.map(x => x.id === id ? {...x, code} : x))\<close>; the components
  keep their state and get the new element as prop.
\<close>

definition onCodeChange :: "int \<Rightarrow> jsstring \<Rightarrow> CodePreview list \<Rightarrow> CodePreview list" where
  "onCodeChange i c host =
     map (\<lambda>p. if out_id (output_prop p) = i then p\<lparr>output_prop := (output_prop p)\<lparr>code := c\<rparr>\<rparr>
              else p)
       host"

text \<open>
  The \<open>onChange\<close> of the editor of the component at position \<open>k\<close> of the host, with
  the value \<open>v\<close> that the editor passes (\<open>None\<close> for \<open>undefined\<close>).
  TypeScript version, line 135:
  \<^verbatim>\<open>onChange={v => onCodeChange(output.id, v || '')}\<close>.
\<close>

definition Editor_onChange_tsx ::
  "nat \<Rightarrow> jsstring option \<Rightarrow> CodePreview list \<Rightarrow> CodePreview list" where
  "Editor_onChange_tsx k v host =
     (if k < length host
      then onCodeChange (out_id (output_prop (host ! k)))
             (case v of Some c \<Rightarrow> c | None \<Rightarrow> []) host
      else host)"

text \<open>
  JavaScript version, lines 622 to 625:
  \<^verbatim>\<open>onChange={(value) => { onCodeChange(output.id, value); setSketchStatus('idle'); }}\<close>.
  An undefined \<open>code\<close> is read back as the empty string
  (\<^verbatim>\<open>output?.code || ''\<close>, line 537), which is how it is stored here.
\<close>

definition Editor_onChange_jsx ::
  "nat \<Rightarrow> jsstring option \<Rightarrow> CodePreview list \<Rightarrow> CodePreview list" where
  "Editor_onChange_jsx k v host =
     (if k < length host
      then (let host' = onCodeChange (out_id (output_prop (host ! k)))
                          (case v of Some c \<Rightarrow> c | None \<Rightarrow> []) host
            in host'[k := (host' ! k)\<lparr>sketchStatus := Idle\<rparr>])
      else host)"

section \<open>CodePreview: the sandbox script\<close>

text \<open>
  \<^verbatim>\<open>const post = (s, m = '') => window.parent.postMessage({ type: 'SKETCH_STATUS',
  status: s, message: m, id: ${output.id} }, '*')\<close>
  (\<open>postStatus\<close> in the JavaScript version).
\<close>

definition post :: "int \<Rightarrow> status \<Rightarrow> jsstring \<Rightarrow> message" where
  "post i st m = \<lparr>msg_type = str ''SKETCH_STATUS'', msg_status = st, msg_message = m, msg_id = i\<rparr>"

text \<open>
  The text of the generated program is spliced into the \<open>try\<close> block of the script,
  after the statement \<open>post('loading')\<close>, so the program shares the block with the
  calls of \<open>post\<close>. What the name \<open>post\<close> means inside the block:
  \<^item> \<open>HarnessPost\<close>: the function of the script;
  \<^item> \<open>DeadZone e\<close>: the program declares the name in the block with \<open>let\<close>, \<open>const\<close>
    or \<open>class\<close>; the name is uninitialised when \<open>post('loading')\<close> runs, which throws
    a ReferenceError with the message \<open>e\<close>;
  \<^item> \<open>SketchPost f\<close>: the program declares a function of that name in the block,
    which is hoisted; the calls written in the block run it, and \<open>f st m\<close> are the
    messages that it posts when called with \<open>st\<close> and \<open>m\<close>.
  The \<open>catch\<close> block and the handler of \<open>window.onerror\<close> stand outside the block
  and always call the function of the script.
\<close>

datatype post_binding =
    HarnessPost
  | DeadZone jsstring
  | SketchPost "status \<Rightarrow> jsstring \<Rightarrow> message list"

text \<open>
  What happens after the script has run: an uncaught error reaches the handler that
  the script has put in \<open>window.onerror\<close>, or the program posts a message of its own.
\<close>

datatype sketch_event = Uncaught jsstring | Posted message

text \<open>
  What the generated program does in one run of the sandbox document, the part that
  the component does not decide:
  \<^item> \<open>scriptParses\<close>: the inline script compiles. A script with a syntax error is
    not run at all, so none of its statements is, the assignment of
    \<open>window.onerror\<close> included;
  \<^item> \<open>postBinding\<close>: see above;
  \<^item> \<open>codePosts\<close>: the messages that the program posts itself while it is
    evaluated inside the \<open>try\<close> block;
  \<^item> \<open>codeThrows\<close>: that evaluation throws, with this \<open>message\<close>;
  \<^item> \<open>definesSetup\<close>: after the program, \<open>window.setup\<close> is a function;
  \<^item> \<open>p5Throws\<close>: \<open>new p5()\<close> throws, with this \<open>message\<close>;
  \<^item> \<open>timerSet\<close>: \<open>setTimeout\<close> registers the callback and it runs after 100 ms
    (the program may have replaced \<open>setTimeout\<close>);
  \<^item> \<open>eventsBefore\<close>, \<open>eventsAfter\<close>: what happens after the script has run, before
    and after the moment at which that timer fires.
\<close>

record sketch_run =
  scriptParses :: bool
  postBinding :: post_binding
  codePosts :: "message list"
  codeThrows :: "jsstring option"
  definesSetup :: bool
  p5Throws :: "jsstring option"
  timerSet :: bool
  eventsBefore :: "sketch_event list"
  eventsAfter :: "sketch_event list"

text \<open>A call of \<open>post\<close> that is written inside the \<open>try\<close> block.\<close>

fun block_post :: "int \<Rightarrow> post_binding \<Rightarrow> status \<Rightarrow> jsstring \<Rightarrow> message list" where
  "block_post i HarnessPost st m = [post i st m]"
| "block_post i (SketchPost f) st m = f st m"
| "block_post i (DeadZone e) st m = []"

fun event_messages :: "int \<Rightarrow> sketch_event \<Rightarrow> message list" where
  "event_messages i (Uncaught m) = [post i Error m]"
| "event_messages i (Posted msg) = [msg]"

definition later_messages :: "int \<Rightarrow> sketch_event list \<Rightarrow> message list" where
  "later_messages i evs = concat (map (event_messages i) evs)"

text \<open>
  The messages that the host receives from the script of \<open>srcDoc\<close> (lines 119 to
  126), in order:
  \<^verbatim>\<open>window.onerror = (m) => post('error', m);
  try { post('loading'); CODE; new p5(); setTimeout(() => post('success'), 100); }
  catch(e) { post('error', e.message); }\<close>
  The timer is never cancelled.
\<close>

definition srcDoc_messages :: "int \<Rightarrow> sketch_run \<Rightarrow> message list" where
  "srcDoc_messages i b =
     (if \<not> scriptParses b then []
      else case postBinding b of
        DeadZone e \<Rightarrow>
          post i Error e # later_messages i (eventsBefore b @ eventsAfter b)
      | _ \<Rightarrow>
          block_post i (postBinding b) Loading []
          @ codePosts b
          @ (case or_else (codeThrows b) (p5Throws b) of
               Some m \<Rightarrow>
                 post i Error m # later_messages i (eventsBefore b @ eventsAfter b)
             | None \<Rightarrow>
                 later_messages i (eventsBefore b)
                 @ (if timerSet b then block_post i (postBinding b) Success [] else [])
                 @ later_messages i (eventsAfter b)))"

text \<open>
  The messages that the host receives from the script of \<open>renderSketch\<close> (lines 494
  to 517), in order. It differs from the other in the test of \<open>window.setup\<close> before
  \<open>new p5()\<close>, whose \<open>else\<close> branch posts an error from inside the \<open>try\<close> block.
\<close>

definition renderSketch_messages :: "int \<Rightarrow> sketch_run \<Rightarrow> message list" where
  "renderSketch_messages i b =
     (if \<not> scriptParses b then []
      else case postBinding b of
        DeadZone e \<Rightarrow>
          post i Error e # later_messages i (eventsBefore b @ eventsAfter b)
      | _ \<Rightarrow>
          block_post i (postBinding b) Loading []
          @ codePosts b
          @ (case codeThrows b of
               Some m \<Rightarrow>
                 post i Error m # later_messages i (eventsBefore b @ eventsAfter b)
             | None \<Rightarrow>
                 if definesSetup b
                 then (case p5Throws b of
                         Some m \<Rightarrow>
                           post i Error m
                           # later_messages i (eventsBefore b @ eventsAfter b)
                       | None \<Rightarrow>
                           later_messages i (eventsBefore b)
                           @ (if timerSet b then block_post i (postBinding b) Success []
                              else [])
                           @ later_messages i (eventsAfter b))
                 else block_post i (postBinding b) Error (str ''No setup() function found.'')
                      @ later_messages i (eventsBefore b @ eventsAfter b)))"

section \<open>CodePreview: handleDownload\<close>

text \<open>
  The files that \<open>handleDownload\<close> puts in the archive (lines 96 to 102 and 374 to
  427), as pairs of name and content. The texts of \<open>style.css\<close> and \<open>index.html\<close> are
  literals of the source that no property here reads; they are parameters.
  In the JavaScript version the content of \<open>sketch.js\<close> is
  \<^verbatim>\<open>output?.code || ''\<close>, which is \<open>code\<close> for a string.
\<close>

definition handleDownload_tsx ::
  "jsstring \<Rightarrow> jsstring \<Rightarrow> CodePreview \<Rightarrow> (string \<times> jsstring) list" where
  "handleDownload_tsx style_css index_html p =
     [(''sketch.js'', code (output_prop p)),
      (''style.css'', style_css),
      (''index.html'', index_html)]"

definition handleDownload_jsx ::
  "jsstring \<Rightarrow> jsstring \<Rightarrow> CodePreview \<Rightarrow> (string \<times> jsstring) list" where
  "handleDownload_jsx style_css index_html p =
     (let codeString = code (output_prop p)
      in [(''sketch.js'', codeString),
          (''style.css'', style_css),
          (''index.html'', index_html)])"

section \<open>Derived notions used in the statements\<close>

text \<open>
  The length of the tag that the group \<^verbatim>\<open>(?:javascript|js)?\<close> consumes at the start
  of a text.
\<close>

definition tag_len :: "jsstring \<Rightarrow> nat" where
  "tag_len s =
     (if prefix (str ''javascript'') s then 10 else if prefix (str ''js'') s then 2 else 0)"

text \<open>
  The round trip of the specification: the content of \<open>sketch.js\<close> in the exported
  files, wrapped in a fence with the given tag and passed through the extractor again.
\<close>

definition reextract :: "jsstring \<Rightarrow> (string \<times> jsstring) list \<Rightarrow> jsstring option" where
  "reextract tag files =
     map_option (\<lambda>c. extractCode (fenced tag c)) (map_of files ''sketch.js'')"

text \<open>The calls of the status endpoint and the resource fetches among the effects.\<close>

fun is_poll :: "effect \<Rightarrow> bool" where
  "is_poll (GetVideosOperation _) = True"
| "is_poll _ = False"

fun is_fetch :: "effect \<Rightarrow> bool" where
  "is_fetch (Fetch _) = True"
| "is_fetch _ = False"

text \<open>The sequence of statuses that a sequence of messages carries.\<close>

definition statuses :: "message list \<Rightarrow> status list" where
  "statuses ms = map msg_status ms"

section \<open>Properties: the Code Extractor\<close>

lemma not_ws_tick: "\<not> is_ws 96"
  by (simp add: is_ws_def)

lemma fence_prefix_sep:
  assumes "\<not> sublist fence X" "d \<noteq> 96"
  shows "\<not> prefix fence (X @ d # r)"
proof
  assume "prefix fence (X @ d # r)"
  then consider "prefix fence X" | us where "fence = X @ us" "prefix us (d # r)" "us \<noteq> []"
    by (fastforce simp: prefix_append)
  then show False
  proof cases
    case 1
    then show ?thesis using assms(1) by (auto simp: prefix_def sublist_def)
  next
    case 2
    then obtain u us' where "us = u # us'" by (cases us) auto
    with 2 have "fence = X @ d # us'" by auto
    then have "d \<in> set fence" by (metis in_set_conv_decomp)
    then show ?thesis using assms(2) by (simp add: fence_def)
  qed
qed

lemma lazy_body_sep:
  "\<not> sublist fence X \<Longrightarrow> d \<noteq> 96 \<Longrightarrow> lazy_body (X @ d # fence @ r) = Some (X @ [d])"
proof (induction X)
  case Nil
  then show ?case by (simp add: fence_def)
next
  case (Cons c X)
  have "\<not> sublist fence X" using Cons.prems(1) by (auto simp: sublist_Cons_right)
  moreover have "\<not> prefix fence ((c # X) @ d # fence @ r)"
    using fence_prefix_sep[OF Cons.prems] by blast
  ultimately show ?case using Cons by simp
qed

lemma spaces_then_body_eq: "spaces_then_body s = map_option (dropWhile is_ws) (lazy_body s)"
proof (induction s)
  case Nil
  then show ?case by simp
next
  case (Cons c s)
  show ?case
  proof (cases "is_ws c")
    case True
    then have "c \<noteq> 96" using not_ws_tick by auto
    then have "\<not> prefix fence (c # s)" by (auto simp: fence_def)
    then show ?thesis using True Cons by (cases "lazy_body s") auto
  next
    case False
    then show ?thesis by (cases "lazy_body (c # s)") (auto split: if_splits)
  qed
qed

lemma fence_not_Nil: "fence \<noteq> []"
  by (simp add: fence_def)

lemma lazy_body_Some:
  "lazy_body s = Some m \<Longrightarrow> (\<exists>r. s = m @ fence @ r) \<and> \<not> sublist fence m"
proof (induction s arbitrary: m)
  case Nil
  then show ?case by simp
next
  case (Cons c s)
  show ?case
  proof (cases "prefix fence (c # s)")
    case True
    then show ?thesis using Cons.prems by (auto simp: prefix_def fence_not_Nil)
  next
    case False
    then obtain m' where m': "lazy_body s = Some m'" "m = c # m'"
      using Cons.prems by auto
    then obtain r where r: "s = m' @ fence @ r" "\<not> sublist fence m'"
      using Cons.IH by blast
    have "\<not> prefix fence (c # m')"
      using False r(1) by (metis append_Cons prefix_prefix)
    then show ?thesis using r m' by (auto simp: sublist_Cons_right)
  qed
qed

lemma lazy_body_None: "lazy_body s = None \<Longrightarrow> \<not> sublist fence s"
  by (induction s) (auto simp: fence_not_Nil sublist_Cons_right split: if_splits)

lemma lazy_body_None_iff: "lazy_body s = None \<longleftrightarrow> \<not> sublist fence s"
proof
  show "lazy_body s = None \<Longrightarrow> \<not> sublist fence s" by (rule lazy_body_None)
next
  assume n: "\<not> sublist fence s"
  show "lazy_body s = None"
  proof (cases "lazy_body s")
    case (Some m)
    then obtain r where "s = m @ fence @ r" using lazy_body_Some by blast
    then have "sublist fence s" by (auto simp: sublist_def)
    then show ?thesis using n by simp
  qed simp
qed

lemma lazy_body_letters:
  "96 \<notin> set t \<Longrightarrow> lazy_body (t @ s) = map_option ((@) t) (lazy_body s)"
proof (induction t)
  case Nil
  then show ?case by (simp add: option.map_ident)
next
  case (Cons c t)
  then have "\<not> prefix fence ((c # t) @ s)" by (auto simp: fence_def)
  then show ?case using Cons by (cases "lazy_body (t @ s)"; cases "lazy_body s") simp_all
qed

lemma after_open_eq: "after_open s = spaces_then_body (drop (tag_len s) s)"
proof -
  have a: "spaces_then_body s = None" if h: "spaces_then_body (drop (length t) s) = None" "prefix t s" "96 \<notin> set t" for t
  proof -
    obtain s' where s': "s = t @ s'" using h(2) by (auto simp: prefix_def)
    then show ?thesis using h(1,3) by (simp add: spaces_then_body_eq lazy_body_letters)
  qed
  have j: "96 \<notin> set (str ''javascript'')" "96 \<notin> set (str ''js'')"
    "length (str ''javascript'') = 10" "length (str ''js'') = 2"
    by (simp_all add: str_def)
  have nj: "\<not> prefix (str ''js'') s" if "prefix (str ''javascript'') s"
    using that by (auto simp: str_def prefix_def)
  show ?thesis
    using a[of "str ''javascript''"] a[of "str ''js''"] j nj
    by (cases "spaces_then_body (drop 10 s)"; cases "spaces_then_body (drop 2 s)")
       (auto simp: after_open_def or_else_def tag_len_def)
qed

lemma trim_dropWhile: "trim (dropWhile is_ws s) = trim s"
  by (simp add: trim_def)

lemma trim_snoc_ws: "trim (s @ [w]) = trim s" if "is_ws w"
proof (cases "\<forall>x\<in>set s. is_ws x")
  case True
  then have "dropWhile is_ws s = []" "dropWhile is_ws (s @ [w]) = []"
    using that by (auto simp: dropWhile_eq_Nil_conv)
  then show ?thesis by (simp only: trim_def)
next
  case False
  then show ?thesis using that by (auto simp: trim_def dropWhile_append)
qed

lemma sublist_trim: "sublist (trim s) s"
proof -
  have "suffix (dropWhile is_ws (rev (dropWhile is_ws s))) (rev (dropWhile is_ws s))"
    by (rule suffix_dropWhile)
  then have "prefix (trim s) (dropWhile is_ws s)"
    by (simp add: trim_def suffix_to_prefix)
  moreover have "suffix (dropWhile is_ws s) s" by (rule suffix_dropWhile)
  ultimately show ?thesis
    by (meson prefix_imp_sublist suffix_imp_sublist sublist_order.order.trans)
qed

lemma trim_idem: "trim (trim s) = trim s"
proof -
  define t where "t = dropWhile is_ws s"
  define u where "u = dropWhile is_ws (rev t)"
  have "dropWhile is_ws (rev u) = rev u"
  proof (cases "u = []")
    case True
    then show ?thesis by simp
  next
    case False
    then have "t \<noteq> []" unfolding u_def by auto
    have "hd (rev u) = last u" using False by (simp add: hd_rev)
    also have "\<dots> = last (rev t)" unfolding u_def using False
      by (metis Nil_is_rev_conv \<open>t \<noteq> []\<close> dropWhile_last hd_dropWhile last_in_set
          last_rev t_def)
    also have "\<dots> = hd t" using \<open>t \<noteq> []\<close> by (simp add: last_rev)
    finally have "\<not> is_ws (hd (rev u))"
      using \<open>t \<noteq> []\<close> unfolding t_def by (metis hd_dropWhile)
    then show ?thesis by (simp add: dropWhile_eq_self_iff)
  qed
  then show ?thesis by (simp add: trim_def t_def u_def)
qed

lemma fence_sublist_ticks: "sublist fence (p @ fence @ r)"
  by (auto simp: sublist_def)

lemma no_early_fence:
  assumes "\<not> sublist fence ((c # pre) @ [96, 96])"
  shows "\<not> prefix fence ((c # pre) @ fence @ rest)"
proof
  assume a: "prefix fence ((c # pre) @ fence @ rest)"
  consider "pre = []" | a where "pre = [a]" | a b q where "pre = a # b # q"
    by (cases pre; cases "tl pre") auto
  then have "prefix fence ((c # pre) @ [96, 96])"
    using a by cases (auto simp: fence_def)
  then show False using assms by (meson prefix_imp_sublist)
qed

lemma lazy_body_first:
  "\<not> sublist fence (m @ [96, 96]) \<Longrightarrow> lazy_body (m @ fence @ r) = Some m"
proof (induction m)
  case Nil
  then show ?case by (simp add: fence_def)
next
  case (Cons c m)
  have "\<not> sublist fence (m @ [96, 96])"
    using Cons.prems by (auto simp: sublist_Cons_right)
  then show ?case using Cons.IH no_early_fence[OF Cons.prems] by simp
qed

lemma regex_exec_skip:
  "\<not> sublist fence (pre @ [96, 96]) \<Longrightarrow>
   regex_exec (pre @ fence @ rest) = regex_exec (fence @ rest)"
proof (induction pre)
  case Nil
  then show ?case by simp
next
  case (Cons c pre)
  have 1: "\<not> sublist fence (pre @ [96, 96])"
    using Cons.prems by (auto simp: sublist_Cons_right)
  have 2: "\<not> prefix fence ((c # pre) @ fence @ rest)"
  proof
    assume a: "prefix fence ((c # pre) @ fence @ rest)"
    consider "pre = []" | a where "pre = [a]" | a b q where "pre = a # b # q"
      by (cases pre; cases "tl pre") auto
    then have "prefix fence ((c # pre) @ [96, 96])"
      using a by cases (auto simp: fence_def)
    then show False using Cons.prems by (meson prefix_imp_sublist)
  qed
  show ?case using Cons.IH[OF 1] 2 by simp
qed

lemma tag_split: "\<exists>t. s = t @ drop (tag_len s) s \<and> 96 \<notin> set t"
proof -
  have "96 \<notin> set (take (tag_len s) s)"
    by (auto simp: tag_len_def str_def prefix_def)
  then show ?thesis by (metis append_take_drop_id)
qed

lemma after_open_None_iff: "after_open s = None \<longleftrightarrow> \<not> sublist fence s"
proof -
  obtain t where t: "s = t @ drop (tag_len s) s" "96 \<notin> set t" using tag_split by blast
  have "lazy_body s = map_option ((@) t) (lazy_body (drop (tag_len s) s))"
    using lazy_body_letters[OF t(2)] t(1) by metis
  then show ?thesis
    by (simp add: after_open_eq spaces_then_body_eq flip: lazy_body_None_iff)
qed

lemma regex_exec_Some:
  "regex_exec s = Some x \<Longrightarrow> \<exists>p m r. s = p @ fence @ m @ fence @ r"
proof (induction s)
  case Nil
  then show ?case by simp
next
  case (Cons c s)
  show ?case
  proof (cases "prefix fence (c # s) \<and> after_open (drop 3 (c # s)) \<noteq> None")
    case True
    then obtain rest where rest: "c # s = fence @ rest"
      by (auto simp: prefix_def)
    then have "drop 3 (c # s) = rest" by (simp add: fence_def)
    then have "sublist fence rest" using True after_open_None_iff by auto
    then obtain m r where "rest = m @ fence @ r" by (auto simp: sublist_def)
    then have "c # s = [] @ fence @ m @ fence @ r" using rest by simp
    then show ?thesis by blast
  next
    case False
    then have "regex_exec s = Some x" using Cons.prems by (auto split: if_splits option.splits)
    then obtain p m r where "s = p @ fence @ m @ fence @ r" using Cons.IH by blast
    then have "c # s = (c # p) @ fence @ m @ fence @ r" by simp
    then show ?thesis by blast
  qed
qed

lemma regex_exec_found: "regex_exec (p @ fence @ m @ fence @ r) \<noteq> None"
proof (induction p)
  case Nil
  have "after_open (m @ fence @ r) \<noteq> None"
    by (simp add: after_open_None_iff fence_sublist_ticks)
  then show ?case by (auto simp: fence_def)
next
  case (Cons c p)
  then show ?case by (auto split: option.splits)
qed

lemma regex_exec_None_iff:
  "regex_exec s = None \<longleftrightarrow> \<not> (\<exists>p m r. s = p @ fence @ m @ fence @ r)"
proof
  assume "regex_exec s = None"
  then show "\<not> (\<exists>p m r. s = p @ fence @ m @ fence @ r)"
    using regex_exec_found by metis
next
  assume "\<not> (\<exists>p m r. s = p @ fence @ m @ fence @ r)"
  then show "regex_exec s = None"
    using regex_exec_Some by (cases "regex_exec s") blast+
qed

lemma tag_len_tagged:
  assumes "tag \<in> {[], str ''js'', str ''javascript''}" "is_ws w"
  shows "tag_len (tag @ w # s) = length tag"
  using assms by (auto simp: tag_len_def str_def is_ws_def)

lemma extract_block_aux:
  assumes tag: "tag \<in> {[], str ''js'', str ''javascript''}"
    and w: "is_ws w1" "is_ws w2"
    and X: "\<not> sublist fence X"
    and pre: "\<not> sublist fence (pre @ [96, 96])"
  shows "extractCode (pre @ fence @ tag @ w1 # X @ w2 # fence @ suf) = trim X"
proof -
  let ?rest = "tag @ w1 # X @ w2 # fence @ suf"
  have w1: "w1 \<noteq> 96" "w2 \<noteq> 96" using w not_ws_tick by auto
  have "\<not> sublist fence (w1 # X)"
    using X w1 by (auto simp: sublist_Cons_right fence_def)
  then have "lazy_body ((w1 # X) @ w2 # fence @ suf) = Some ((w1 # X) @ [w2])"
    using w1 by (intro lazy_body_sep) auto
  then have "spaces_then_body (w1 # X @ w2 # fence @ suf) = Some (dropWhile is_ws (X @ [w2]))"
    using w by (simp add: spaces_then_body_eq)
  moreover have "drop (tag_len ?rest) ?rest = w1 # X @ w2 # fence @ suf"
    using tag_len_tagged[OF tag w(1)] by simp
  ultimately have "after_open ?rest = Some (dropWhile is_ws (X @ [w2]))"
    by (simp add: after_open_eq)
  then have "regex_exec (fence @ ?rest) = Some (dropWhile is_ws (X @ [w2]))"
    by (simp add: fence_def)
  then have "regex_exec (pre @ fence @ ?rest) = Some (dropWhile is_ws (X @ [w2]))"
    using regex_exec_skip[OF pre] by simp
  then show ?thesis
    using w by (simp add: extractCode_def trim_dropWhile trim_snoc_ws)
qed

lemma extract_first_aux:
  assumes pre: "\<not> sublist fence (pre @ [96, 96])"
    and m: "drop (tag_len rest) rest = m @ fence @ r" "\<not> sublist fence (m @ [96, 96])"
  shows "extractCode (pre @ fence @ rest) = trim m"
proof -
  have "after_open rest = Some (dropWhile is_ws m)"
    using lazy_body_first[OF m(2)] m(1) by (simp add: after_open_eq spaces_then_body_eq)
  then have "regex_exec (fence @ rest) = Some (dropWhile is_ws m)"
    by (simp add: fence_def)
  then show ?thesis
    using regex_exec_skip[OF pre] by (simp add: extractCode_def trim_dropWhile)
qed

lemma regex_exec_no_fence: "regex_exec s = Some m \<Longrightarrow> \<not> sublist fence m"
proof (induction s)
  case Nil
  then show ?case by simp
next
  case (Cons c s)
  show ?case
  proof (cases "prefix fence (c # s) \<and> after_open (drop 3 (c # s)) \<noteq> None")
    case True
    then have "after_open (drop 3 (c # s)) = Some m"
      using Cons.prems by auto
    then obtain b where b: "lazy_body (drop (tag_len (drop 3 (c # s))) (drop 3 (c # s))) = Some b"
      "m = dropWhile is_ws b"
      by (auto simp: after_open_eq spaces_then_body_eq)
    then have "\<not> sublist fence b" using lazy_body_Some by blast
    moreover have "sublist m b" unfolding b(2) by (simp add: suffix_dropWhile suffix_imp_sublist)
    ultimately show ?thesis by (meson sublist_order.order.trans)
  next
    case False
    then have "regex_exec s = Some m" using Cons.prems by (auto split: if_splits option.splits)
    then show ?thesis using Cons.IH by blast
  qed
qed

lemma extracted_no_fence:
  assumes "regex_exec text = Some m"
  shows "\<not> sublist fence (extractCode text)"
proof -
  have "\<not> sublist fence m" using assms by (rule regex_exec_no_fence)
  moreover have "sublist (trim m) m" by (rule sublist_trim)
  ultimately show ?thesis using assms
    by (auto simp: extractCode_def dest: sublist_order.order.trans)
qed

lemma extract_fenced:
  assumes "tag \<in> {[], str ''js'', str ''javascript''}" "\<not> sublist fence X"
  shows "extractCode (fenced tag X) = trim X"
proof -
  have pre: "\<not> sublist fence ([] @ [96, 96])" by (simp add: fence_def sublist_Cons_right)
  have lf: "is_ws 10" by (simp add: is_ws_def)
  have "extractCode ([] @ fence @ tag @ 10 # X @ 10 # fence @ []) = trim X"
    using assms(1) lf lf assms(2) pre by (rule extract_block_aux)
  then show ?thesis by (simp add: fenced_def)
qed

lemma no_tick_no_block:
  assumes "96 \<notin> set s"
  shows "\<not> (\<exists>p m r. s = p @ fence @ m @ fence @ r)"
proof
  assume "\<exists>p m r. s = p @ fence @ m @ fence @ r"
  then obtain p m r where "s = p @ fence @ m @ fence @ r" by blast
  then have "96 \<in> set s" by (simp add: fence_def)
  then show False using assms by simp
qed

lemma no_tick_no_fence:
  assumes "96 \<notin> set s"
  shows "\<not> sublist fence s"
proof
  assume "sublist fence s"
  then obtain p r where "s = p @ fence @ r" by (auto simp: sublist_def)
  then have "96 \<in> set s" by (simp add: fence_def)
  then show False using assms by simp
qed

text \<open>
  Claim C4 (amended). The extractor is a total function from strings to strings, so it
  has no error condition. With \<open>fence\<close> the three grave accents:
  \<^item> a text that does not hold two fences that do not overlap is returned unchanged;
  \<^item> otherwise the result is the trimmed text that stands between the first fence of
    the input, skipping a tag \<open>javascript\<close> or \<open>js\<close> that follows that fence directly,
    and the next fence;
  \<^item> in particular, for a block whose tag is \<open>js\<close>, \<open>javascript\<close> or empty, whose
    interior \<open>X\<close> holds no fence and is set off from the tag and the closing fence by
    white space, and whose opening fence is the first fence of the input, the result
    is \<open>X\<close> trimmed; the input of the specification, a fence, \<open>js\<close>, a line feed,
    \<open>X\<close>, a line feed and a fence, is such a block.
  The claim as written does not hold for every language tag: the expression knows the
  tags \<open>javascript\<close> and \<open>js\<close> only, and any other tag is part of what it returns.
\<close>

theorem extractCode_fenced_block:
  "(\<not> (\<exists>p m r. input = p @ fence @ m @ fence @ r) \<longrightarrow> extractCode input = input)
   \<and> (\<not> sublist fence (pre @ [96, 96]) \<and> drop (tag_len rest) rest = m @ fence @ r
        \<and> \<not> sublist fence (m @ [96, 96])
      \<longrightarrow> extractCode (pre @ fence @ rest) = trim m)
   \<and> (tag \<in> {[], str ''js'', str ''javascript''} \<and> is_ws w1 \<and> is_ws w2
        \<and> \<not> sublist fence X \<and> \<not> sublist fence (pre @ [96, 96])
      \<longrightarrow> extractCode (pre @ fence @ tag @ w1 # X @ w2 # fence @ suf) = trim X)
   \<and> (tag \<in> {[], str ''js'', str ''javascript''} \<and> \<not> sublist fence X
      \<longrightarrow> extractCode (fenced tag X) = trim X)"
proof (intro conjI impI)
  assume "\<not> (\<exists>p m r. input = p @ fence @ m @ fence @ r)"
  then have "regex_exec input = None" by (simp add: regex_exec_None_iff)
  then show "extractCode input = input" by (simp add: extractCode_def)
next
  assume "\<not> sublist fence (pre @ [96, 96]) \<and> drop (tag_len rest) rest = m @ fence @ r
        \<and> \<not> sublist fence (m @ [96, 96])"
  then show "extractCode (pre @ fence @ rest) = trim m"
    using extract_first_aux by blast
next
  assume "tag \<in> {[], str ''js'', str ''javascript''} \<and> is_ws w1 \<and> is_ws w2
        \<and> \<not> sublist fence X \<and> \<not> sublist fence (pre @ [96, 96])"
  then show "extractCode (pre @ fence @ tag @ w1 # X @ w2 # fence @ suf) = trim X"
    using extract_block_aux by blast
next
  assume "tag \<in> {[], str ''js'', str ''javascript''} \<and> \<not> sublist fence X"
  then show "extractCode (fenced tag X) = trim X"
    using extract_fenced by blast
qed

theorem extractCode_fenced_block_witness:
  "extractCode (str ''let x = 1;'') = str ''let x = 1;''
   \<and> extractCode (fenced (str ''js'') (str ''  circle(1); '')) = str ''circle(1);''"
proof -
  have 1: "\<not> (\<exists>p m r. str ''let x = 1;'' = p @ fence @ m @ fence @ r)"
    by (rule no_tick_no_block) (simp add: str_def)
  have 2: "str ''js'' \<in> {[], str ''js'', str ''javascript''}" by simp
  have 3: "\<not> sublist fence (str ''  circle(1); '')"
    by (rule no_tick_no_fence) (simp add: str_def)
  have 4: "trim (str ''  circle(1); '') = str ''circle(1);''"
    by (simp add: trim_def str_def is_ws_def)
  show ?thesis
    using extractCode_fenced_block[where input = "str ''let x = 1;''" and tag = "str ''js''"
        and X = "str ''  circle(1); ''"] 1 2 3 4
    by simp
qed

text \<open>
  A block tagged \<open>python\<close> with the interior \<open>print(1)\<close>: the extractor returns the
  tag and the interior, not the interior.
\<close>

theorem extractCode_other_tag_counterexample:
  "extractCode (fenced (str ''python'') (str ''print(1)'')) = str ''python\<newline>print(1)''
   \<and> extractCode (fenced (str ''python'') (str ''print(1)'')) \<noteq> trim (str ''print(1)'')"
  by (simp add: extractCode_def fenced_def fence_def str_def after_open_def or_else_def
      trim_def is_ws_def)

section \<open>Properties: export and extraction again\<close>

lemma sketch_js_tsx: "map_of (handleDownload_tsx css html p) ''sketch.js'' = Some (code (output_prop p))"
  by (simp add: handleDownload_tsx_def)

lemma sketch_js_jsx: "map_of (handleDownload_jsx css html p) ''sketch.js'' = Some (code (output_prop p))"
  by (simp add: handleDownload_jsx_def)

text \<open>
  Claim C8 (amended). The content of \<open>sketch.js\<close> in the exported files is the
  \<open>code\<close> of the output, unchanged. Wrapped in a fence with the tag \<open>js\<close>,
  \<open>javascript\<close> or none and extracted again, a \<open>code\<close> that holds no fence comes
  back trimmed. It comes back as it was when, in addition, it has no white space at
  either end, and in particular whenever it is what the extractor returned for a
  response in which it found a fenced block.
\<close>

theorem export_then_reextract:
  "(tag \<in> {[], str ''js'', str ''javascript''} \<and> \<not> sublist fence (code (output_prop p))
      \<longrightarrow> reextract tag (handleDownload_tsx css html p) = Some (trim (code (output_prop p)))
          \<and> reextract tag (handleDownload_jsx css html p) = Some (trim (code (output_prop p))))
   \<and> (tag \<in> {[], str ''js'', str ''javascript''} \<and> \<not> sublist fence (code (output_prop p))
        \<and> trim (code (output_prop p)) = code (output_prop p)
      \<longrightarrow> reextract tag (handleDownload_tsx css html p) = Some (code (output_prop p))
          \<and> reextract tag (handleDownload_jsx css html p) = Some (code (output_prop p)))
   \<and> (tag \<in> {[], str ''js'', str ''javascript''} \<and> regex_exec response_text = Some m
        \<and> code (output_prop p) = extractCode response_text
      \<longrightarrow> reextract tag (handleDownload_tsx css html p) = Some (code (output_prop p))
          \<and> reextract tag (handleDownload_jsx css html p) = Some (code (output_prop p)))"
proof (intro conjI impI)
  assume a: "tag \<in> {[], str ''js'', str ''javascript''} \<and> \<not> sublist fence (code (output_prop p))"
  then have "extractCode (fenced tag (code (output_prop p))) = trim (code (output_prop p))"
    using extract_fenced by blast
  then show "reextract tag (handleDownload_tsx css html p) = Some (trim (code (output_prop p)))"
    "reextract tag (handleDownload_jsx css html p) = Some (trim (code (output_prop p)))"
    by (simp_all add: reextract_def sketch_js_tsx sketch_js_jsx)
next
  assume a: "tag \<in> {[], str ''js'', str ''javascript''} \<and> \<not> sublist fence (code (output_prop p))
        \<and> trim (code (output_prop p)) = code (output_prop p)"
  then have "extractCode (fenced tag (code (output_prop p))) = code (output_prop p)"
    using extract_fenced by metis
  then show "reextract tag (handleDownload_tsx css html p) = Some (code (output_prop p))"
    "reextract tag (handleDownload_jsx css html p) = Some (code (output_prop p))"
    by (simp_all add: reextract_def sketch_js_tsx sketch_js_jsx)
next
  assume a: "tag \<in> {[], str ''js'', str ''javascript''} \<and> regex_exec response_text = Some m
        \<and> code (output_prop p) = extractCode response_text"
  then have c: "code (output_prop p) = trim m" by (simp add: extractCode_def)
  have "\<not> sublist fence (code (output_prop p))"
    using a extracted_no_fence by metis
  then have "extractCode (fenced tag (code (output_prop p))) = trim (code (output_prop p))"
    using a extract_fenced by blast
  then have "extractCode (fenced tag (code (output_prop p))) = code (output_prop p)"
    using c by (simp add: trim_idem)
  then show "reextract tag (handleDownload_tsx css html p) = Some (code (output_prop p))"
    "reextract tag (handleDownload_jsx css html p) = Some (code (output_prop p))"
    by (simp_all add: reextract_def sketch_js_tsx sketch_js_jsx)
qed

theorem export_then_reextract_witness:
  "reextract (str ''js'')
     (handleDownload_tsx [] []
        \<lparr>output_prop = \<lparr>out_id = 1, code = str ''circle(1);'', fullResponse = []\<rparr>,
         sketchStatus = Idle, sketchError = []\<rparr>) = Some (str ''circle(1);'')
   \<and> reextract (str ''js'')
     (handleDownload_jsx [] []
        \<lparr>output_prop = \<lparr>out_id = 1, code = str ''circle(1);'', fullResponse = []\<rparr>,
         sketchStatus = Idle, sketchError = []\<rparr>) = Some (str ''circle(1);'')"
proof -
  let ?p = "\<lparr>output_prop = \<lparr>out_id = 1, code = str ''circle(1);'', fullResponse = []\<rparr>,
         sketchStatus = Idle, sketchError = []\<rparr>"
  have 1: "str ''js'' \<in> {[], str ''js'', str ''javascript''}" by simp
  have 2: "\<not> sublist fence (code (output_prop ?p))"
    by (rule no_tick_no_fence) (simp add: str_def)
  have 3: "trim (code (output_prop ?p)) = code (output_prop ?p)"
    by (simp add: trim_def str_def is_ws_def)
  show ?thesis
    using export_then_reextract[where tag = "str ''js''" and p = ?p and css = "[]" and html = "[]"]
      1 2 3
    by simp
qed

text \<open>
  A response \<open>" x"\<close> without a fence becomes the \<open>code\<close> of its output unchanged;
  exported, fenced and extracted again it is \<open>"x"\<close>.
\<close>

theorem export_then_reextract_counterexample:
  "code_result \<lparr>res_text = Some (str '' x''), res_content = None, res_groundingChunks = None\<rparr>
     = (str '' x'', str '' x'')
   \<and> reextract (str ''js'')
        (handleDownload_tsx [] []
           \<lparr>output_prop = \<lparr>out_id = 1, code = str '' x'', fullResponse = str '' x''\<rparr>,
            sketchStatus = Idle, sketchError = []\<rparr>) = Some (str ''x'')
   \<and> str ''x'' \<noteq> str '' x''"
  by (simp add: code_result_def Let_def text_of_def reextract_def handleDownload_tsx_def
      extractCode_def fenced_def fence_def str_def after_open_def or_else_def trim_def is_ws_def)

section \<open>Properties: Promise.all and generateCode\<close>

lemma collect_Some_iff: "collect slots = Some vs \<longleftrightarrow> slots = map Some vs"
proof (induction slots arbitrary: vs)
  case Nil
  then show ?case by auto
next
  case (Cons a slots)
  then show ?case by (cases a; cases vs) auto
qed

lemma collect_None_iff: "collect slots = None \<longleftrightarrow> None \<in> set slots"
proof (induction slots)
  case Nil
  then show ?case by simp
next
  case (Cons a slots)
  then show ?case by (cases a) auto
qed

lemma collect_filled:
  assumes "\<forall>i<length slots. slots ! i = Some (g i)"
  shows "collect slots = Some (map g [0..<length slots])"
proof -
  have "slots = map Some (map g [0..<length slots])"
    using assms by (intro nth_equalityI) auto
  then show ?thesis using collect_Some_iff by blast
qed

lemma all_filled:
  assumes "\<forall>i<length slots. slots ! i = None \<or> slots ! i = Some (g i)" "None \<notin> set slots"
  shows "\<forall>i<length slots. slots ! i = Some (g i)"
proof (intro allI impI)
  fix i assume i: "i < length slots"
  then have "slots ! i \<in> set slots" by (rule nth_mem)
  then have "slots ! i \<noteq> None" using assms(2) by metis
  moreover have "slots ! i = None \<or> slots ! i = Some (g i)" using assms(1) i by blast
  ultimately show "slots ! i = Some (g i)" by auto
qed

lemma promise_all_run_Nil:
  assumes "\<forall>i<length slots. slots ! i = None \<or> slots ! i = Some (g i)"
    and "\<forall>i<length slots. slots ! i \<noteq> None"
  shows "promise_all_run settle slots [] = Some (Inr (map g [0..<length slots]))"
proof -
  have "None \<notin> set slots" using assms(2) by (metis in_set_conv_nth)
  then have "\<forall>i<length slots. slots ! i = Some (g i)" using assms(1) by (intro all_filled)
  then have "collect slots = Some (map g [0..<length slots])" by (rule collect_filled)
  then show ?thesis by simp
qed

lemma promise_all_run_done:
  assumes "\<forall>i<length slots. slots ! i = None \<or> slots ! i = Some (g i)"
    and "collect slots = Some vs"
  shows "promise_all_run settle slots (k # order) = Some (Inr (map g [0..<length slots]))"
proof -
  have "None \<notin> set slots" using assms(2) collect_None_iff by (metis option.distinct(1))
  then have "\<forall>i<length slots. slots ! i = Some (g i)" using assms(1) by (intro all_filled)
  then have "collect slots = Some (map g [0..<length slots])" by (rule collect_filled)
  then show ?thesis by simp
qed

lemma promise_all_run_success:
  assumes "\<forall>i<length slots. settle i = Inr (g i)"
    and "\<forall>i<length slots. slots ! i = None \<or> slots ! i = Some (g i)"
    and "\<forall>i<length slots. slots ! i = None \<longrightarrow> i \<in> set order"
  shows "promise_all_run settle slots order = Some (Inr (map g [0..<length slots]))"
  using assms
proof (induction order arbitrary: slots)
  case Nil
  have "\<forall>i<length slots. slots ! i \<noteq> None"
    using Nil.prems(3) by (metis empty_iff empty_set)
  then show ?case using Nil.prems(2) by (intro promise_all_run_Nil)
next
  case (Cons k order)
  show ?case
  proof (cases "collect slots")
    case (Some vs)
    then show ?thesis using Cons.prems(2) by (intro promise_all_run_done)
  next
    case None
    show ?thesis
    proof (cases "k < length slots")
      case True
      let ?slots = "slots[k := Some (g k)]"
      have 1: "\<forall>i<length ?slots. settle i = Inr (g i)" using Cons.prems(1) by simp
      have 2: "\<forall>i<length ?slots. ?slots ! i = None \<or> ?slots ! i = Some (g i)"
      proof (intro allI impI)
        fix i assume "i < length ?slots"
        then show "?slots ! i = None \<or> ?slots ! i = Some (g i)"
          using Cons.prems(2) by (cases "i = k") simp_all
      qed
      have 3: "\<forall>i<length ?slots. ?slots ! i = None \<longrightarrow> i \<in> set order"
      proof (intro allI impI)
        fix i assume i: "i < length ?slots" "?slots ! i = None"
        then have "i \<noteq> k" by (metis length_list_update nth_list_update_eq option.distinct(1))
        then have "slots ! i = None" using i by simp
        then have "i \<in> set (k # order)" using Cons.prems(3) i(1) by simp
        then show "i \<in> set order" using \<open>i \<noteq> k\<close> by simp
      qed
      have "promise_all_run settle ?slots order = Some (Inr (map g [0..<length ?slots]))"
        using 1 2 3 by (rule Cons.IH)
      moreover have "settle k = Inr (g k)" using Cons.prems(1) True by blast
      ultimately show ?thesis using None True by simp
    next
      case False
      have 3: "\<forall>i<length slots. slots ! i = None \<longrightarrow> i \<in> set order"
      proof (intro allI impI)
        fix i assume i: "i < length slots" "slots ! i = None"
        then have "i \<in> set (k # order)" using Cons.prems(3) by blast
        then show "i \<in> set order" using False i(1) by auto
      qed
      have "promise_all_run settle slots order = Some (Inr (map g [0..<length slots]))"
        using Cons.prems(1,2) 3 by (rule Cons.IH)
      then show ?thesis using None False by simp
    qed
  qed
qed

lemma promise_all_run_failure:
  assumes "i \<in> set order" "i < length slots" "settle i = Inl e" "slots ! i = None"
  shows "\<exists>j e'. j < length slots \<and> j \<in> set order \<and> settle j = Inl e'
           \<and> promise_all_run settle slots order = Some (Inl e')"
  using assms
proof (induction order arbitrary: slots)
  case Nil
  then show ?case by simp
next
  case (Cons k order)
  have n: "collect slots = None"
    using Cons.prems(2,4) collect_None_iff by (metis nth_mem)
  show ?case
  proof (cases "k < length slots")
    case True
    show ?thesis
    proof (cases "settle k")
      case (Inl e')
      then have "promise_all_run settle slots (k # order) = Some (Inl e')"
        using n True by simp
      then show ?thesis using True Inl by auto
    next
      case (Inr v)
      then have ki: "k \<noteq> i" using Cons.prems(3) by auto
      then have "i \<in> set order" using Cons.prems(1) by auto
      moreover have "i < length (slots[k := Some v])" "(slots[k := Some v]) ! i = None"
        using Cons.prems(2,4) ki by auto
      ultimately obtain j e' where
        "j < length (slots[k := Some v])" "j \<in> set order" "settle j = Inl e'"
        "promise_all_run settle (slots[k := Some v]) order = Some (Inl e')"
        using Cons.IH Cons.prems(3) by blast
      then show ?thesis using n True Inr by auto
    qed
  next
    case False
    then have "i \<in> set order" using Cons.prems(1,2) by auto
    then obtain j e' where
      "j < length slots" "j \<in> set order" "settle j = Inl e'"
      "promise_all_run settle slots order = Some (Inl e')"
      using Cons.IH Cons.prems(2,3,4) by blast
    then show ?thesis using n False by auto
  qed
qed

lemma promise_all_success:
  assumes "\<forall>i<n. settle i = Inr (g i)" "{..<n} \<subseteq> set order"
  shows "promise_all n settle order = Some (Inr (map g [0..<n]))"
proof -
  have "promise_all_run settle (replicate n None) order
          = Some (Inr (map g [0..<length (replicate n (None :: 'a option))]))"
    using assms by (intro promise_all_run_success) auto
  then show ?thesis by (simp add: promise_all_def)
qed

lemma promise_all_failure:
  assumes "i \<in> set order" "i < n" "settle i = Inl e"
  shows "\<exists>j e'. j < n \<and> j \<in> set order \<and> settle j = Inl e'
           \<and> promise_all n settle order = Some (Inl e')"
  using promise_all_run_failure[of i order "replicate n None" settle e] assms
  by (simp add: promise_all_def)

lemma with_ids_map:
  "with_ids now (map g [0..<n])
     = map (\<lambda>i. \<lparr>out_id = now i + int i, code = fst (g i), fullResponse = snd (g i)\<rparr>) [0..<n]"
  by (simp add: with_ids_def zip_map2 zip_same_conv_map)

lemma distinct_ids:
  assumes "\<forall>i j. i \<le> j \<longrightarrow> now i \<le> now j"
  shows "distinct (map (\<lambda>i. now i + int i) [0..<n])"
proof -
  have "inj (\<lambda>i. now i + int i)"
  proof (rule injI)
    fix i j :: nat
    assume eq: "now i + int i = now j + int j"
    show "i = j"
    proof (rule ccontr)
      assume "i \<noteq> j"
      then consider "i < j" | "j < i" by linarith
      then show False
      proof cases
        case 1
        then have "now i \<le> now j" using assms by simp
        then show False using eq 1 by linarith
      next
        case 2
        then have "now j \<le> now i" using assms by simp
        then show False using eq 2 by linarith
      qed
    qed
  qed
  then have "inj_on (\<lambda>i. now i + int i) (set [0..<n])" by (rule inj_on_subset) simp
  then show ?thesis by (simp add: distinct_map)
qed

lemma run_effects_snoc: "run_effects (es @ [e]) s = apply_effect e (run_effects es s)"
  by (simp add: run_effects_def)

lemma run_effects_Nil: "run_effects [] s = s"
  by (simp add: run_effects_def)

lemma run_effects_Cons: "run_effects (e # es) s = run_effects es (apply_effect e s)"
  by (simp add: run_effects_def)

lemma run_effects_requests:
  "run_effects (replicate n (GenerateContent r) @ es) s = run_effects es s"
  by (induction n) (simp_all add: run_effects_def)

lemma settle_success:
  assumes "\<forall>i<n. respond i = Inr (r i)"
  shows "\<forall>i<n. map_sum id code_result (respond i) = Inr (code_result (r i))"
  using assms by simp

text \<open>
  Claim C5. When the image is present, the client has been constructed (the batch is
  issued), every one of the \<open>N = concurrentRequests\<close> calls succeeds with a response \<open>r i\<close> and every call completes, in whatever order
  (\<open>order\<close> is any list that names each call), \<open>generateCode\<close> completes and sets
  \<open>outputs\<close> to exactly \<open>N\<close> elements, element \<open>i\<close> built from the response of call
  \<open>i\<close>: in submission order, independent of \<open>order\<close>. The id of element \<open>i\<close> is
  assigned at that moment, \<open>Date.now() + i\<close>; the ids of a batch are pairwise distinct
  when the clock does not run backwards. This holds for every \<open>N\<close>, so for \<open>N \<ge> 1\<close>.
\<close>

theorem generateCode_batch_in_submission_order:
  assumes "imageBase64 s \<noteq> []"
    and "\<forall>i<concurrentRequests s. respond i = Inr (r i)"
    and "{..<concurrentRequests s} \<subseteq> set order"
  shows "generateCode None respond order now s =
           (SetLoading True
            # replicate (concurrentRequests s) (GenerateContent (code_request s))
            @ [SetOutputs
                 (map (\<lambda>i. \<lparr>out_id = now i + int i,
                              code = extractCode (text_of (r i)),
                              fullResponse = text_of (r i)\<rparr>)
                    [0..<concurrentRequests s]),
               SetLoading False],
            Returned)
         \<and> outputs (run_effects (fst (generateCode None respond order now s)) s)
             = map (\<lambda>i. \<lparr>out_id = now i + int i,
                           code = extractCode (text_of (r i)),
                           fullResponse = text_of (r i)\<rparr>)
                 [0..<concurrentRequests s]
         \<and> length (outputs (run_effects (fst (generateCode None respond order now s)) s))
             = concurrentRequests s
         \<and> ((\<forall>i j. i \<le> j \<longrightarrow> now i \<le> now j) \<longrightarrow>
              distinct (map out_id
                (outputs (run_effects (fst (generateCode None respond order now s)) s))))"
proof -
  let ?n = "concurrentRequests s"
  let ?outs = "map (\<lambda>i. \<lparr>out_id = now i + int i, code = extractCode (text_of (r i)),
                           fullResponse = text_of (r i)\<rparr>) [0..<?n]"
  have "promise_all ?n (\<lambda>i. map_sum id code_result (respond i)) order
          = Some (Inr (map (\<lambda>i. code_result (r i)) [0..<?n]))"
    using settle_success[OF assms(2)] assms(3) by (rule promise_all_success)
  moreover have "with_ids now (map (\<lambda>i. code_result (r i)) [0..<?n]) = ?outs"
    by (simp add: with_ids_map code_result_def Let_def)
  ultimately have g: "generateCode None respond order now s =
      (SetLoading True # replicate ?n (GenerateContent (code_request s))
       @ [SetOutputs ?outs, SetLoading False], Returned)"
    using assms(1) by (simp add: generateCode_def Let_def)
  have o: "outputs (run_effects (fst (generateCode None respond order now s)) s) = ?outs"
    unfolding g by (simp add: run_effects_Cons run_effects_requests run_effects_Nil)
  have d: "distinct (map out_id ?outs)" if "\<forall>i j. i \<le> j \<longrightarrow> now i \<le> now j"
    using distinct_ids[OF that, of ?n] by (simp add: comp_def)
  show ?thesis using g o d by simp
qed

theorem generateCode_batch_in_submission_order_witness:
  "map fullResponse
     (outputs (run_effects
        (fst (generateCode None
           (\<lambda>i. Inr \<lparr>res_text = Some [48 + i], res_content = None, res_groundingChunks = None\<rparr>)
           [2, 0, 1] (\<lambda>i. 1700000000000)
           (Home_initial\<lparr>imageBase64 := str ''data:image/jpeg;base64,AA''\<rparr>)))
        (Home_initial\<lparr>imageBase64 := str ''data:image/jpeg;base64,AA''\<rparr>)))
     = [[48], [49], [50]]
   \<and> map out_id
     (outputs (run_effects
        (fst (generateCode None
           (\<lambda>i. Inr \<lparr>res_text = Some [48 + i], res_content = None, res_groundingChunks = None\<rparr>)
           [2, 0, 1] (\<lambda>i. 1700000000000)
           (Home_initial\<lparr>imageBase64 := str ''data:image/jpeg;base64,AA''\<rparr>)))
        (Home_initial\<lparr>imageBase64 := str ''data:image/jpeg;base64,AA''\<rparr>)))
     = [1700000000000, 1700000000001, 1700000000002]"
proof -
  let ?s = "Home_initial\<lparr>imageBase64 := str ''data:image/jpeg;base64,AA''\<rparr>"
  let ?r = "\<lambda>i. \<lparr>res_text = Some [48 + i], res_content = None, res_groundingChunks = None\<rparr>"
  have n: "concurrentRequests ?s = 3" by (simp add: Home_initial_def)
  have 1: "imageBase64 ?s \<noteq> []" by (simp add: str_def)
  have 2: "\<forall>i<concurrentRequests ?s. Inr (?r i) = (Inr (?r i) :: js_error + response)"
    by simp
  have 3: "{..<concurrentRequests ?s} \<subseteq> set [2, 0, 1]" unfolding n by auto
  have u: "[0..<3] = [0, 1, 2]" by (simp add: upt_rec)
  note t = generateCode_batch_in_submission_order[where s = ?s and respond = "\<lambda>i. Inr (?r i)"
      and r = ?r and order = "[2, 0, 1]" and now = "\<lambda>i. 1700000000000", OF 1 2 3]
  show ?thesis
    unfolding t[THEN conjunct2, THEN conjunct1] n u by (simp add: text_of_def)
qed

text \<open>
  Claim C1. When the image is present, the client has been constructed (the batch is
  issued) and one of the \<open>N\<close> calls fails (call \<open>i\<close> completes and is rejected),
  \<open>generateCode\<close> returns, reports one error to the
  caller (\<open>errorInfo\<close> is set to the reason of a rejected call of the batch) and never
  calls \<open>setOutputs\<close>: \<open>outputs\<close> keeps the value it had, whatever the other calls
  returned.
\<close>

theorem generateCode_all_or_nothing:
  assumes "imageBase64 s \<noteq> []"
    and "i < concurrentRequests s" "i \<in> set order" "respond i = Inl e"
  shows "\<exists>j e'. j < concurrentRequests s \<and> j \<in> set order \<and> respond j = Inl e'
           \<and> generateCode None respond order now s =
               (SetLoading True
                # replicate (concurrentRequests s) (GenerateContent (code_request s))
                @ [SetErrorInfo e', SetLoading False],
                Returned)
           \<and> outputs (run_effects (fst (generateCode None respond order now s)) s) = outputs s
           \<and> errorInfo (run_effects (fst (generateCode None respond order now s)) s) = Some e'
           \<and> loading (run_effects (fst (generateCode None respond order now s)) s) = False"
proof -
  let ?n = "concurrentRequests s"
  let ?settle = "\<lambda>i. map_sum id code_result (respond i)"
  have "?settle i = Inl e" using assms(4) by simp
  then obtain j e' where j: "j < ?n" "j \<in> set order" "?settle j = Inl e'"
    "promise_all ?n ?settle order = Some (Inl e')"
    using promise_all_failure[OF assms(3,2), of ?settle e] by blast
  have rj: "respond j = Inl e'" using j(3) by (cases "respond j") auto
  have g: "generateCode None respond order now s =
      (SetLoading True # replicate ?n (GenerateContent (code_request s))
       @ [SetErrorInfo e', SetLoading False], Returned)"
    using assms(1) j(4) by (simp add: generateCode_def Let_def)
  have "outputs (run_effects (fst (generateCode None respond order now s)) s) = outputs s"
    "errorInfo (run_effects (fst (generateCode None respond order now s)) s) = Some e'"
    "loading (run_effects (fst (generateCode None respond order now s)) s) = False"
    unfolding g by (simp_all add: run_effects_Cons run_effects_requests run_effects_Nil)
  then show ?thesis using j(1,2) rj g by blast
qed

theorem generateCode_all_or_nothing_witness:
  "outputs (run_effects
     (fst (generateCode None
        (\<lambda>i. if i = 1 then Inl (Thrown (str ''quota''))
             else Inr \<lparr>res_text = Some [48 + i], res_content = None, res_groundingChunks = None\<rparr>)
        [2, 1, 0] (\<lambda>i. 1700000000000)
        (Home_initial\<lparr>imageBase64 := str ''data:image/jpeg;base64,AA''\<rparr>)))
     (Home_initial\<lparr>imageBase64 := str ''data:image/jpeg;base64,AA''\<rparr>)) = []
   \<and> errorInfo (run_effects
     (fst (generateCode None
        (\<lambda>i. if i = 1 then Inl (Thrown (str ''quota''))
             else Inr \<lparr>res_text = Some [48 + i], res_content = None, res_groundingChunks = None\<rparr>)
        [2, 1, 0] (\<lambda>i. 1700000000000)
        (Home_initial\<lparr>imageBase64 := str ''data:image/jpeg;base64,AA''\<rparr>)))
     (Home_initial\<lparr>imageBase64 := str ''data:image/jpeg;base64,AA''\<rparr>))
     = Some (Thrown (str ''quota''))"
proof -
  let ?s = "Home_initial\<lparr>imageBase64 := str ''data:image/jpeg;base64,AA''\<rparr>"
  let ?R = "\<lambda>i::nat. if i = 1 then Inl (Thrown (str ''quota''))
             else Inr \<lparr>res_text = Some [48 + i], res_content = None, res_groundingChunks = None\<rparr>"
  have 1: "imageBase64 ?s \<noteq> []" by (simp add: str_def)
  have 2: "1 < concurrentRequests ?s" by (simp add: Home_initial_def)
  have 3: "(1::nat) \<in> set [2, 1, 0]" by simp
  have 4: "?R 1 = Inl (Thrown (str ''quota''))" by simp
  obtain j e' where j: "?R j = Inl e'"
    "outputs (run_effects (fst (generateCode None ?R [2, 1, 0] (\<lambda>i. 1700000000000) ?s)) ?s) = outputs ?s"
    "errorInfo (run_effects (fst (generateCode None ?R [2, 1, 0] (\<lambda>i. 1700000000000) ?s)) ?s) = Some e'"
    using generateCode_all_or_nothing[where s = ?s and respond = ?R and i = 1
        and order = "[2, 1, 0]" and e = "Thrown (str ''quota'')" and now = "\<lambda>i. 1700000000000",
        OF 1 2 3 4]
    by blast
  have "e' = Thrown (str ''quota'')" using j(1) by (cases "j = 1") simp_all
  moreover have "outputs ?s = []" by (simp add: Home_initial_def)
  ultimately show ?thesis using j(2,3) by simp
qed

text \<open>
  Claim C9. When \<open>imageBase64\<close> is the empty string, \<open>generateCode\<close> returns at once,
  before the client is constructed: it has no effect at all, so it issues no request,
  and the state (\<open>outputs\<close>, \<open>loading\<close>, \<open>errorInfo\<close> and every other field) is
  unchanged.
\<close>

theorem generateCode_empty_image_is_noop:
  assumes "imageBase64 s = []"
  shows "generateCode client respond order now s = ([], Returned)
         \<and> run_effects (fst (generateCode client respond order now s)) s = s"
  using assms by (simp add: generateCode_def run_effects_def)

theorem generateCode_empty_image_is_noop_witness:
  "generateCode None (\<lambda>i. Inl (Thrown [])) [0, 1, 2] (\<lambda>i. 0) (Home_initial\<lparr>loading := True\<rparr>)
     = ([], Returned)
   \<and> run_effects
       (fst (generateCode None (\<lambda>i. Inl (Thrown [])) [0, 1, 2] (\<lambda>i. 0) (Home_initial\<lparr>loading := True\<rparr>)))
       (Home_initial\<lparr>loading := True\<rparr>) = Home_initial\<lparr>loading := True\<rparr>"
proof -
  have "imageBase64 (Home_initial\<lparr>loading := True\<rparr>) = []" by (simp add: Home_initial_def)
  then show ?thesis by (rule generateCode_empty_image_is_noop)
qed

section \<open>Properties: the loading flag\<close>

lemma loading_after_SetLoading_False:
  "loading (run_effects (es @ [SetLoading False]) s) = False"
  by (simp add: run_effects_snoc)

lemma generateCode_ends:
  assumes "imageBase64 s \<noteq> []" "generateCode None respond order now s = (es, c)"
    "c \<noteq> Pending"
  shows "c = Returned \<and> (\<exists>es'. es = es' @ [SetLoading False])"
proof (cases "promise_all (concurrentRequests s) (\<lambda>i. map_sum id code_result (respond i)) order")
  case None
  then show ?thesis using assms by (auto simp: generateCode_def Let_def)
next
  case (Some a)
  then show ?thesis using assms by (cases a) (auto simp: generateCode_def Let_def)
qed

lemma handleChat_ends:
  assumes "trim (userInput s) \<noteq> []"
  shows "\<exists>es'. handleChat None answer s = (es' @ [SetLoading False], Returned)"
  using assms by (cases answer) (auto simp: handleChat_def Let_def)

lemma generateMedia_ends:
  assumes "generateMedia None env s = (es, c)" "c \<noteq> Pending"
  shows "c = Returned \<and> (\<exists>es'. es = es' @ [SetLoading False])"
proof (cases "mediaType s")
  case MImage
  then have "es = ([SetLoading True, GenerateContent (image_request s)]
      @ image_outcome (reply env)) @ [SetLoading False]" "c = Returned"
    using assms by (simp_all add: generateMedia_def)
  then show ?thesis by blast
next
  case MEdit
  then have "es = ([SetLoading True, GenerateContent (edit_request s)]
      @ image_outcome (reply env)) @ [SetLoading False]" "c = Returned"
    using assms by (simp_all add: generateMedia_def)
  then show ?thesis by blast
next
  case MVideo
  show ?thesis
  proof (cases "submitted env")
    case (Inl e)
    then have "es = [SetLoading True, GenerateVideos (video_request s), SetErrorInfo e]
        @ [SetLoading False]" "c = Returned"
      using assms MVideo by (simp_all add: generateMedia_def)
    then show ?thesis by blast
  next
    case (Inr op0)
    obtain evs out where p: "poll_loop op0 (polls env) = (evs, out)"
      by (cases "poll_loop op0 (polls env)")
    show ?thesis
    proof (cases out)
      case None
      then show ?thesis using assms MVideo Inr p by (simp add: generateMedia_def)
    next
      case (Some a)
      show ?thesis
      proof (cases a)
        case (Inl e)
        then have "es = (SetLoading True # GenerateVideos (video_request s) # evs @ [SetErrorInfo e])
            @ [SetLoading False]" "c = Returned"
          using assms MVideo Inr p Some by (simp_all add: generateMedia_def)
        then show ?thesis by blast
      next
        case (Inr res)
        then have "es = (SetLoading True # GenerateVideos (video_request s) # evs
            @ [Fetch (video_url env res)]
            @ (case fetched env of Inl e \<Rightarrow> [SetErrorInfo e]
                | Inr u \<Rightarrow> [PrependGeneratedMedia \<lparr>media_type = VideoMedia, url = u\<rparr>]))
            @ [SetLoading False]" "c = Returned"
          using assms MVideo \<open>submitted env = Inr op0\<close> p Some
          by (simp_all add: generateMedia_def)
        then show ?thesis by blast
      qed
    qed
  qed
qed

text \<open>
  Claim C10 (amended). Take an invocation of \<open>generateCode\<close> with an image, of
  \<open>handleChat\<close> with an input that is not blank, or of \<open>generateMedia\<close>, in which
  the client has been constructed, so that the \<open>try\<close> block is entered. Once it
  completes (it does not stay pending) it has returned, and \<open>setLoading(false)\<close> is
  its last effect, whether the \<open>try\<close> block succeeded or threw: right after it
  \<open>loading\<close> is false, whatever the state \<open>s'\<close> was in which the effects took place.
  (\<open>handleChat\<close> always completes in this model.) An invocation that its entry guard
  stops, \<open>generateCode\<close> without an image and \<open>handleChat\<close> with a blank input, has
  no effect and leaves \<open>loading\<close> as it was. Nothing is said here about an invocation
  in which the constructor of the client throws.
\<close>

theorem loading_cleared_after_guarded_body:
  "(imageBase64 s \<noteq> [] \<and> generateCode None respond order now s = (es1, c1) \<and> c1 \<noteq> Pending
      \<longrightarrow> c1 = Returned \<and> es1 \<noteq> [] \<and> last es1 = SetLoading False
          \<and> loading (run_effects es1 s') = False)
   \<and> (trim (userInput s) \<noteq> []
      \<longrightarrow> snd (handleChat None answer s) = Returned
          \<and> fst (handleChat None answer s) \<noteq> []
          \<and> last (fst (handleChat None answer s)) = SetLoading False
          \<and> loading (run_effects (fst (handleChat None answer s)) s') = False)
   \<and> (generateMedia None env s = (es3, c3) \<and> c3 \<noteq> Pending
      \<longrightarrow> c3 = Returned \<and> es3 \<noteq> [] \<and> last es3 = SetLoading False
          \<and> loading (run_effects es3 s') = False)
   \<and> (imageBase64 s = [] \<longrightarrow> generateCode client respond order now s = ([], Returned))
   \<and> (trim (userInput s) = [] \<longrightarrow> handleChat client answer s = ([], Returned))"
proof (intro conjI impI)
  assume a: "imageBase64 s \<noteq> [] \<and> generateCode None respond order now s = (es1, c1)
    \<and> c1 \<noteq> Pending"
  then obtain es' where e: "es1 = es' @ [SetLoading False]" and c: "c1 = Returned"
    using generateCode_ends by blast
  show "c1 = Returned" by (rule c)
  show "es1 \<noteq> []" "last es1 = SetLoading False" "loading (run_effects es1 s') = False"
    unfolding e by (simp_all add: run_effects_snoc)
next
  assume a: "trim (userInput s) \<noteq> []"
  then obtain es' where e: "handleChat None answer s = (es' @ [SetLoading False], Returned)"
    using handleChat_ends by blast
  show "snd (handleChat None answer s) = Returned" "fst (handleChat None answer s) \<noteq> []"
    "last (fst (handleChat None answer s)) = SetLoading False"
    "loading (run_effects (fst (handleChat None answer s)) s') = False"
    unfolding e by (simp_all add: run_effects_snoc)
next
  assume a: "generateMedia None env s = (es3, c3) \<and> c3 \<noteq> Pending"
  then obtain es' where e: "es3 = es' @ [SetLoading False]" and c: "c3 = Returned"
    using generateMedia_ends by blast
  show "c3 = Returned" by (rule c)
  show "es3 \<noteq> []" "last es3 = SetLoading False" "loading (run_effects es3 s') = False"
    unfolding e by (simp_all add: run_effects_snoc)
next
  assume "imageBase64 s = []"
  then show "generateCode client respond order now s = ([], Returned)"
    by (simp add: generateCode_def)
next
  assume "trim (userInput s) = []"
  then show "handleChat client answer s = ([], Returned)" by (simp add: handleChat_def)
qed

theorem loading_cleared_after_guarded_body_witness:
  "snd (handleChat None (Inl (Thrown (str ''offline''))) (Home_initial\<lparr>userInput := str ''hi''\<rparr>))
     = Returned
   \<and> loading (run_effects
        (fst (handleChat None (Inl (Thrown (str ''offline''))) (Home_initial\<lparr>userInput := str ''hi''\<rparr>)))
        (Home_initial\<lparr>userInput := str ''hi''\<rparr>)) = False
   \<and> last (fst (generateMedia None
        \<lparr>reply = Inl (Thrown (str ''offline'')), submitted = Inl (Thrown []), polls = [],
         fetched = Inl (Thrown []), API_KEY = []\<rparr> Home_initial)) = SetLoading False"
proof -
  let ?s = "Home_initial\<lparr>userInput := str ''hi''\<rparr>"
  let ?env = "\<lparr>reply = Inl (Thrown (str ''offline'')), submitted = Inl (Thrown []), polls = [],
         fetched = Inl (Thrown []), API_KEY = []\<rparr>"
  have 1: "trim (userInput ?s) \<noteq> []" by (simp add: trim_def str_def is_ws_def)
  have 2: "generateMedia None ?env Home_initial
      = (fst (generateMedia None ?env Home_initial), Returned)"
    by (simp add: generateMedia_def Home_initial_def)
  have 3: "Returned \<noteq> Pending" by simp
  have a: "snd (handleChat None (Inl (Thrown (str ''offline''))) ?s) = Returned
      \<and> loading (run_effects (fst (handleChat None (Inl (Thrown (str ''offline''))) ?s)) ?s) = False"
    using loading_cleared_after_guarded_body[where s = ?s
        and answer = "Inl (Thrown (str ''offline''))" and s' = ?s] 1
    by blast
  have b: "last (fst (generateMedia None ?env Home_initial)) = SetLoading False"
    using loading_cleared_after_guarded_body[where s = Home_initial and env = ?env
        and ?es3.0 = "fst (generateMedia None ?env Home_initial)" and ?c3.0 = Returned] 2 3
    by blast
  show ?thesis using a b by blast
qed

text \<open>
  \<open>handleChat\<close> with an empty input while \<open>loading\<close> is true (an earlier request is
  still in flight and has cleared the input) returns through its guard, and
  \<open>loading\<close> is still true after it.
\<close>

theorem handleChat_blank_input_counterexample:
  "handleChat None (Inl (Thrown [])) (Home_initial\<lparr>loading := True\<rparr>) = ([], Returned)
   \<and> loading (run_effects
        (fst (handleChat None (Inl (Thrown [])) (Home_initial\<lparr>loading := True\<rparr>)))
        (Home_initial\<lparr>loading := True\<rparr>))"
  by (simp add: handleChat_def Home_initial_def trim_def run_effects_def)

text \<open>
  The constructor of the client stands between \<open>setLoading(true)\<close> and the \<open>try\<close>
  block. When it throws, the invocation is rejected and \<open>loading\<close> stays true.
\<close>

lemma constructor_throw_keeps_loading:
  "imageBase64 s \<noteq> [] \<Longrightarrow>
     generateCode (Some e) respond order now s = ([SetLoading True], Rejected e)"
  "trim (userInput s) \<noteq> [] \<Longrightarrow>
     snd (handleChat (Some e) answer s) = Rejected e
     \<and> loading (run_effects (fst (handleChat (Some e) answer s)) s')"
  "generateMedia (Some e) env s = ([SetLoading True], Rejected e)"
  "loading (run_effects [SetLoading True] s')"
  by (simp_all add: generateCode_def handleChat_def generateMedia_def Let_def run_effects_def)

section \<open>Properties: the poll loop\<close>

lemma poll_loop_done: "op_done res \<Longrightarrow> poll_loop res xs = ([], Some (Inr res))"
  by (cases xs) simp_all

lemma poll_loop_until_done:
  assumes "\<not> op_done op0" "\<forall>x\<in>set rs. \<not> op_done x" "op_done r"
  shows "poll_loop op0 (map Inr rs @ Inr r # rest)
           = (concat (map (\<lambda>h. [SetTimeout 5000, GetVideosOperation h]) (op0 # rs)),
              Some (Inr r))"
  using assms
proof (induction rs arbitrary: op0)
  case Nil
  then show ?case by (simp add: poll_loop_done)
next
  case (Cons a rs)
  then have "poll_loop a (map Inr rs @ Inr r # rest)
      = (concat (map (\<lambda>h. [SetTimeout 5000, GetVideosOperation h]) (a # rs)), Some (Inr r))"
    by simp
  then show ?case using Cons.prems(1) by simp
qed

lemma count_polls:
  "length (filter is_poll (concat (map (\<lambda>h. [SetTimeout 5000, GetVideosOperation h]) hs)))
     = length hs"
  by (induction hs) simp_all

lemma no_fetch_in_polls:
  "filter is_fetch (concat (map (\<lambda>h. [SetTimeout 5000, GetVideosOperation h]) hs)) = []"
  by (induction hs) simp_all

text \<open>
  Claim C7. Let the client be constructed and the video job be submitted, let the
  submitted operation \<open>op0\<close> be not done, let the status endpoint
  answer the operations \<open>rs\<close>, none of them done, and then \<open>r\<close>, which is done. Then
  \<open>generateMedia\<close> completes; it waits 5000 ms before each poll; it polls \<open>op0\<close> first
  and then each operation of \<open>rs\<close> in turn, each poll with the operation that the
  poll before it returned; it makes \<open>length rs + 1\<close> polls, none after \<open>r\<close>; and it
  fetches once, the uri of \<open>r\<close>, after the last poll. For \<open>rs\<close> of length two these
  are three polls and one fetch.
\<close>

theorem poller_uses_latest_handle_until_done:
  assumes "mediaType s = MVideo" "submitted env = Inr op0"
    and "polls env = map Inr rs @ Inr r # rest"
    and "\<not> op_done op0" "\<forall>x\<in>set rs. \<not> op_done x" "op_done r"
  shows "fst (generateMedia None env s) =
           SetLoading True # GenerateVideos (video_request s)
           # concat (map (\<lambda>h. [SetTimeout 5000, GetVideosOperation h]) (op0 # rs))
           @ [Fetch (video_url env r)]
           @ (case fetched env of
                Inl e \<Rightarrow> [SetErrorInfo e]
              | Inr u \<Rightarrow> [PrependGeneratedMedia \<lparr>media_type = VideoMedia, url = u\<rparr>])
           @ [SetLoading False]
         \<and> snd (generateMedia None env s) = Returned
         \<and> length (filter is_poll (fst (generateMedia None env s))) = length rs + 1
         \<and> filter is_fetch (fst (generateMedia None env s)) = [Fetch (video_url env r)]"
proof -
  let ?polls = "concat (map (\<lambda>h. [SetTimeout 5000, GetVideosOperation h]) (op0 # rs))"
  have p: "poll_loop op0 (polls env) = (?polls, Some (Inr r))"
    unfolding assms(3) using assms(4,5,6) by (rule poll_loop_until_done)
  have g: "generateMedia None env s =
      (SetLoading True # GenerateVideos (video_request s) # ?polls
       @ [Fetch (video_url env r)]
       @ (case fetched env of
            Inl e \<Rightarrow> [SetErrorInfo e]
          | Inr u \<Rightarrow> [PrependGeneratedMedia \<lparr>media_type = VideoMedia, url = u\<rparr>])
       @ [SetLoading False], Returned)"
    using assms(1,2) p by (simp add: generateMedia_def)
  have c: "length (filter is_poll ?polls) = length rs + 1"
    using count_polls[of "op0 # rs"] by simp
  have f: "filter is_fetch ?polls = []" by (rule no_fetch_in_polls)
  show ?thesis
    unfolding g using c f by (cases "fetched env") simp_all
qed

theorem poller_uses_latest_handle_until_done_witness:
  "filter is_poll (fst (generateMedia None
      \<lparr>reply = Inl (Thrown []),
       submitted = Inr \<lparr>op_name = str ''op0'', op_done = False, op_uri = None\<rparr>,
       polls = [Inr \<lparr>op_name = str ''op1'', op_done = False, op_uri = None\<rparr>,
                Inr \<lparr>op_name = str ''op2'', op_done = False, op_uri = None\<rparr>,
                Inr \<lparr>op_name = str ''op3'', op_done = True, op_uri = Some (str ''v?a=1'')\<rparr>],
       fetched = Inr (str ''blob:1''), API_KEY = str ''K''\<rparr>
      (Home_initial\<lparr>mediaType := MVideo\<rparr>)))
     = [GetVideosOperation \<lparr>op_name = str ''op0'', op_done = False, op_uri = None\<rparr>,
        GetVideosOperation \<lparr>op_name = str ''op1'', op_done = False, op_uri = None\<rparr>,
        GetVideosOperation \<lparr>op_name = str ''op2'', op_done = False, op_uri = None\<rparr>]
   \<and> filter is_fetch (fst (generateMedia None
      \<lparr>reply = Inl (Thrown []),
       submitted = Inr \<lparr>op_name = str ''op0'', op_done = False, op_uri = None\<rparr>,
       polls = [Inr \<lparr>op_name = str ''op1'', op_done = False, op_uri = None\<rparr>,
                Inr \<lparr>op_name = str ''op2'', op_done = False, op_uri = None\<rparr>,
                Inr \<lparr>op_name = str ''op3'', op_done = True, op_uri = Some (str ''v?a=1'')\<rparr>],
       fetched = Inr (str ''blob:1''), API_KEY = str ''K''\<rparr>
      (Home_initial\<lparr>mediaType := MVideo\<rparr>)))
     = [Fetch (str ''v?a=1&key=K'')]"
proof -
  let ?op0 = "\<lparr>op_name = str ''op0'', op_done = False, op_uri = None\<rparr>"
  let ?op1 = "\<lparr>op_name = str ''op1'', op_done = False, op_uri = None\<rparr>"
  let ?op2 = "\<lparr>op_name = str ''op2'', op_done = False, op_uri = None\<rparr>"
  let ?op3 = "\<lparr>op_name = str ''op3'', op_done = True, op_uri = Some (str ''v?a=1'')\<rparr>"
  let ?env = "\<lparr>reply = Inl (Thrown []), submitted = Inr ?op0,
       polls = [Inr ?op1, Inr ?op2, Inr ?op3],
       fetched = Inr (str ''blob:1''), API_KEY = str ''K''\<rparr>"
  let ?s = "Home_initial\<lparr>mediaType := MVideo\<rparr>"
  have 1: "mediaType ?s = MVideo" by simp
  have 2: "submitted ?env = Inr ?op0" by simp
  have 3: "polls ?env = map Inr [?op1, ?op2] @ Inr ?op3 # []" by simp
  have 4: "\<not> op_done ?op0" by simp
  have 5: "\<forall>x\<in>set [?op1, ?op2]. \<not> op_done x" by simp
  have 6: "op_done ?op3" by simp
  have u: "video_url ?env ?op3 = str ''v?a=1&key=K''" by (simp add: video_url_def str_def)
  show ?thesis
    using poller_uses_latest_handle_until_done[OF 1 2 3 4 5 6] unfolding u by simp
qed

section \<open>Properties: the status channel and the editor\<close>

lemma handleMessage_tsx_other:
  "msg_id e \<noteq> out_id (output_prop p) \<Longrightarrow> handleMessage_tsx e p = p"
  by (simp add: handleMessage_tsx_def)

lemma handleMessage_jsx_other:
  "msg_id e \<noteq> out_id (output_prop p) \<Longrightarrow> handleMessage_jsx e p = p"
  by (simp add: handleMessage_jsx_def)

text \<open>
  Claim C6. A message whose id is the id of no rendered output changes nothing: after
  it has reached the handler of every component, the status and the error of each
  of them (the whole host) are what they were. Both versions of the handler.
\<close>

theorem stale_message_is_discarded:
  assumes "msg_id e \<notin> set (map (\<lambda>p. out_id (output_prop p)) host)"
  shows "dispatch_tsx e host = host \<and> dispatch_jsx e host = host"
proof -
  have "\<forall>p\<in>set host. msg_id e \<noteq> out_id (output_prop p)" using assms by auto
  then show ?thesis
    unfolding dispatch_tsx_def dispatch_jsx_def
    by (auto intro!: map_idI simp: handleMessage_tsx_other handleMessage_jsx_other)
qed

theorem stale_message_is_discarded_witness:
  "dispatch_tsx (post 2 Error (str ''boom''))
     [\<lparr>output_prop = \<lparr>out_id = 1, code = [], fullResponse = []\<rparr>,
       sketchStatus = Success, sketchError = []\<rparr>]
     = [\<lparr>output_prop = \<lparr>out_id = 1, code = [], fullResponse = []\<rparr>,
         sketchStatus = Success, sketchError = []\<rparr>]
   \<and> dispatch_jsx (post 2 Error (str ''boom''))
     [\<lparr>output_prop = \<lparr>out_id = 1, code = [], fullResponse = []\<rparr>,
       sketchStatus = Success, sketchError = []\<rparr>]
     = [\<lparr>output_prop = \<lparr>out_id = 1, code = [], fullResponse = []\<rparr>,
         sketchStatus = Success, sketchError = []\<rparr>]"
proof -
  let ?host = "[\<lparr>output_prop = \<lparr>out_id = 1, code = [], fullResponse = []\<rparr>,
       sketchStatus = Success, sketchError = []\<rparr>]"
  have "msg_id (post 2 Error (str ''boom'')) \<notin> set (map (\<lambda>p. out_id (output_prop p)) ?host)"
    by (simp add: post_def)
  then show ?thesis by (rule stale_message_is_discarded)
qed

lemma onCodeChange_length: "length (onCodeChange i c host) = length host"
  by (simp add: onCodeChange_def)

lemma onCodeChange_status:
  "k < length host \<Longrightarrow> sketchStatus (onCodeChange i c host ! k) = sketchStatus (host ! k)"
  by (simp add: onCodeChange_def)

lemma Editor_onChange_tsx_keeps_status:
  "k < length host \<Longrightarrow>
   sketchStatus (Editor_onChange_tsx k v host ! k) = sketchStatus (host ! k)"
  by (simp add: Editor_onChange_tsx_def onCodeChange_status)

lemma Editor_onChange_jsx_resets_status:
  "k < length host \<Longrightarrow> sketchStatus (Editor_onChange_jsx k v host ! k) = Idle"
  by (simp add: Editor_onChange_jsx_def Let_def onCodeChange_length)

text \<open>
  Claim C3, at the input at which the TypeScript version departs from it: one
  component whose status is \<open>success\<close>; the editor reports the new text \<open>"x"\<close>. The
  \<open>code\<close> is updated and the status is still \<open>success\<close>. (The lemmas before show the
  same for every host, and that the JavaScript version resets the status to \<open>idle\<close>.)
\<close>

theorem Editor_onChange_tsx_leaves_success:
  "sketchStatus
     (Editor_onChange_tsx 0 (Some (str ''x''))
        [\<lparr>output_prop = \<lparr>out_id = 1, code = [], fullResponse = []\<rparr>,
          sketchStatus = Success, sketchError = []\<rparr>] ! 0) = Success
   \<and> code (output_prop
     (Editor_onChange_tsx 0 (Some (str ''x''))
        [\<lparr>output_prop = \<lparr>out_id = 1, code = [], fullResponse = []\<rparr>,
          sketchStatus = Success, sketchError = []\<rparr>] ! 0)) = str ''x''"
  by (simp add: Editor_onChange_tsx_def onCodeChange_def)

section \<open>Properties: the sandbox lifecycle\<close>

lemma statuses_post [simp]: "statuses (map (post i st) xs) = replicate (length xs) st"
  by (induction xs) (simp_all add: statuses_def post_def)

lemma statuses_Cons [simp]: "statuses (post i st m # ms) = st # statuses ms"
  by (simp add: statuses_def post_def)

lemma statuses_append [simp]: "statuses (xs @ ys) = statuses xs @ statuses ys"
  by (simp add: statuses_def)

lemma statuses_Nil [simp]: "statuses [] = []"
  by (simp add: statuses_def)

lemma statuses_later_uncaught [simp]:
  "statuses (later_messages i (map Uncaught ms)) = replicate (length ms) Error"
  by (induction ms) (simp_all add: later_messages_def)

text \<open>
  Claim C2, at the input at which the code departs from it. The program is
  \<^verbatim>\<open>function setup(){ createCanvas(100, 100); foo(); }\<close> with \<open>foo\<close> undefined: it
  leaves \<open>post\<close> alone and posts nothing itself, its evaluation and \<open>new p5()\<close> do not
  throw, and \<open>setup\<close>, which the library calls once the window has loaded, throws an
  error that nothing catches. The script posts \<open>loading\<close>, its handler of
  \<open>window.onerror\<close> posts \<open>error\<close>, and the timer, which nothing cancels, posts
  \<open>success\<close> after it: in both versions the sequence is \<open>[loading, error, success]\<close>,
  and the last status that the host holds for the failed run is \<open>success\<close>.
\<close>

theorem sandbox_error_is_followed_by_success:
  "statuses (srcDoc_messages 1
      \<lparr>scriptParses = True, postBinding = HarnessPost, codePosts = [], codeThrows = None,
       definesSetup = True, p5Throws = None, timerSet = True,
       eventsBefore = [Uncaught (str ''foo is not defined'')], eventsAfter = []\<rparr>)
     = [Loading, Error, Success]
   \<and> statuses (renderSketch_messages 1
      \<lparr>scriptParses = True, postBinding = HarnessPost, codePosts = [], codeThrows = None,
       definesSetup = True, p5Throws = None, timerSet = True,
       eventsBefore = [Uncaught (str ''foo is not defined'')], eventsAfter = []\<rparr>)
     = [Loading, Error, Success]"
  by (simp add: srcDoc_messages_def renderSketch_messages_def or_else_def later_messages_def)

text \<open>
  Two more facts about the script. A program that declares \<open>post\<close> (or \<open>postStatus\<close>)
  with \<open>let\<close>, \<open>const\<close> or \<open>class\<close> makes the first statement of the \<open>try\<close> block
  throw, and \<open>error\<close> is the only message. A program that leaves the script alone,
  in a run without any later event, gives \<open>[loading, success]\<close> or \<open>[loading, error]\<close>.
\<close>

lemma shadowed_post_posts_error_only:
  assumes "scriptParses b" "postBinding b = DeadZone e" "eventsBefore b = []" "eventsAfter b = []"
  shows "statuses (srcDoc_messages i b) = [Error]"
    and "statuses (renderSketch_messages i b) = [Error]"
  using assms by (simp_all add: srcDoc_messages_def renderSketch_messages_def later_messages_def)

lemma undisturbed_run:
  assumes "scriptParses b" "postBinding b = HarnessPost" "codePosts b = []" "timerSet b"
    "eventsBefore b = []" "eventsAfter b = []"
  shows "statuses (srcDoc_messages i b)
           = (if codeThrows b = None \<and> p5Throws b = None then [Loading, Success]
              else [Loading, Error])"
    and "statuses (renderSketch_messages i b)
           = (if codeThrows b = None \<and> definesSetup b \<and> p5Throws b = None
              then [Loading, Success] else [Loading, Error])"
  using assms
  by (cases "codeThrows b"; cases "p5Throws b";
      simp add: srcDoc_messages_def renderSketch_messages_def or_else_def later_messages_def)+

end
